theory Spec2Isabelle
  imports Main "HOL-Library.Word" "HOL-Library.Monad_Syntax"
begin

unbundle bit_operations_syntax

section \<open>Data model\<close>

type_synonym u8 = "8 word"
type_synonym u32 = "32 word"
type_synonym u64 = "64 word"
type_synonym m256i = "256 word"

text \<open>
  The compile-time constants of \<^verbatim>\<open>public_settings.h\<close> are not part of the sources at
  hand; every function takes them as a parameter record. \<open>NO_UEFI\<close> is the build switch
  read by \<^verbatim>\<open>#ifndef NO_UEFI\<close>, \<open>EPOCH\<close> the epoch constant of a firmware build.
\<close>

record config =
  MAX_NUMBER_OF_TICKS_PER_EPOCH :: nat
  TICKS_TO_KEEP_FROM_PRIOR_EPOCH :: nat
  NUMBER_OF_TRANSACTIONS_PER_TICK :: nat
  MAX_TRANSACTION_SIZE :: nat
  TRANSACTION_SPARSENESS :: nat
  FIRST_TICK_TRANSACTION_OFFSET :: nat
  NUMBER_OF_CONTRACT_EXECUTION_PROCESSORS :: nat
  NO_UEFI :: bool
  EPOCH :: nat

subsection \<open>Spin locks\<close>

text \<open>
  Modelled from the spec: the spin-lock primitives \<^verbatim>\<open>ACQUIRE\<close>, \<^verbatim>\<open>RELEASE\<close> and
  \<^verbatim>\<open>TRY_ACQUIRE\<close> of \<^verbatim>\<open>platform/concurrency.h\<close>. A lock is a flag (\<open>True\<close> = held).
  \<^verbatim>\<open>ACQUIRE\<close> spins until it finds the flag free and then sets it. In a sequential run
  nobody else releases the flag, so \<^verbatim>\<open>ACQUIRE\<close> on a held lock never returns: the
  value \<open>None\<close>.
\<close>

partial_function (option) ACQUIRE :: "bool \<Rightarrow> bool option" where
  "ACQUIRE lock = (if lock then ACQUIRE lock else Some True)"

definition RELEASE :: "bool \<Rightarrow> bool" where
  "RELEASE lock = False"

subsection \<open>Contract locals stacks (contract\_exec.h)\<close>

text \<open>
  \<^verbatim>\<open>acquireContractLocalsStack\<close> probes \<^verbatim>\<open>contractLocalsStackLock[i]\<close> with
  \<^verbatim>\<open>TRY_ACQUIRE\<close>. Other processors take and release stacks meanwhile, so the flag
  seen by the \<open>k\<close>-th attempt is given by a schedule \<open>locks k i\<close> (\<open>True\<close> = held, the
  attempt fails). A run that never finds a free stack is \<open>None\<close>.
\<close>

partial_function (option) acquireSpin ::
  "config \<Rightarrow> (nat \<Rightarrow> nat \<Rightarrow> bool) \<Rightarrow> nat \<Rightarrow> nat \<Rightarrow> nat \<Rightarrow> nat option" where
  "acquireSpin cfg locks stacksToIgnore k i =
     (if locks k i
      then (let i' = i + 1;
                i'' = (if i' = NUMBER_OF_CONTRACT_EXECUTION_PROCESSORS cfg
                       then stacksToIgnore else i')
            in acquireSpin cfg locks stacksToIgnore (k + 1) i'')
      else Some i)"

definition acquireContractLocalsStack ::
  "config \<Rightarrow> (nat \<Rightarrow> nat \<Rightarrow> bool) \<Rightarrow> nat \<Rightarrow> nat option" where
  "acquireContractLocalsStack cfg locks stacksToIgnore =
     acquireSpin cfg locks stacksToIgnore 0 stacksToIgnore"

text \<open>The stack acquisition of \<^verbatim>\<open>QpiContextUserFunctionCall::call\<close>.\<close>

definition stacksNotUsedToReserveThemForStateWriter :: nat where
  "stacksNotUsedToReserveThemForStateWriter = 1"

definition userFunctionCall_acquire :: "config \<Rightarrow> (nat \<Rightarrow> nat \<Rightarrow> bool) \<Rightarrow> nat option" where
  "userFunctionCall_acquire cfg locks =
     acquireContractLocalsStack cfg locks stacksNotUsedToReserveThemForStateWriter"

text \<open>The stack acquisition of \<^verbatim>\<open>QpiContextUserProcedureCall::call\<close> (default argument 0).\<close>

definition userProcedureCall_acquire :: "config \<Rightarrow> (nat \<Rightarrow> nat \<Rightarrow> bool) \<Rightarrow> nat option" where
  "userProcedureCall_acquire cfg locks = acquireContractLocalsStack cfg locks 0"

subsection \<open>Memory\<close>

text \<open>
  A buffer is a total map from element index to value; \<open>copyMem\<close> and \<open>setMem\<close> are the
  platform primitives (a block copy between two non-overlapping ranges of one buffer, and a
  block fill), counted in elements of the buffer. An index beyond the allocated length has
  no meaning in C; the theorems below state the ranges under which every index stays
  inside the buffers.
\<close>

definition copyMem :: "(nat \<Rightarrow> 'a) \<Rightarrow> nat \<Rightarrow> nat \<Rightarrow> nat \<Rightarrow> (nat \<Rightarrow> 'a)" where
  "copyMem mem dst src n = (\<lambda>i. if dst \<le> i \<and> i < dst + n then mem (src + (i - dst)) else mem i)"

definition setMem :: "(nat \<Rightarrow> 'a) \<Rightarrow> nat \<Rightarrow> nat \<Rightarrow> 'a \<Rightarrow> (nat \<Rightarrow> 'a)" where
  "setMem mem start n v = (\<lambda>i. if start \<le> i \<and> i < start + n then v else mem i)"

definition writeBytes :: "(nat \<Rightarrow> 'a) \<Rightarrow> nat \<Rightarrow> 'a list \<Rightarrow> (nat \<Rightarrow> 'a)" where
  "writeBytes mem dst bs = (\<lambda>i. if dst \<le> i \<and> i < dst + length bs then bs ! (i - dst) else mem i)"

datatype 'a ptr = nullptr | Ptr 'a

subsection \<open>Transactions\<close>

text \<open>
  Modelled from the spec: a transaction is a variable-length record with a \<open>tick\<close>, a
  validity predicate \<^verbatim>\<open>checkValidity()\<close> and a serialized image of \<^verbatim>\<open>totalSize()\<close> bytes
  (\<^verbatim>\<open>network_messages/transactions.h\<close>). The KangarooTwelve hash is a parameter \<open>K12\<close>.
\<close>

record Transaction =
  tx_tick :: u32
  tx_valid :: bool
  tx_bytes :: "u8 list"

definition checkValidity :: "Transaction \<Rightarrow> bool" where
  "checkValidity tx = tx_valid tx"

definition totalSize :: "Transaction \<Rightarrow> u32" where
  "totalSize tx = of_nat (length (tx_bytes tx))"

subsection \<open>TickTransactionsStorage (tick\_txs\_storage.h)\<close>


definition tickTransactionsSizeCurrentEpoch :: "config \<Rightarrow> nat" where
  "tickTransactionsSizeCurrentEpoch cfg = FIRST_TICK_TRANSACTION_OFFSET cfg +
     (MAX_NUMBER_OF_TICKS_PER_EPOCH cfg * NUMBER_OF_TRANSACTIONS_PER_TICK cfg
        * MAX_TRANSACTION_SIZE cfg div TRANSACTION_SPARSENESS cfg)"

definition tickTransactionsSizePreviousEpoch :: "config \<Rightarrow> nat" where
  "tickTransactionsSizePreviousEpoch cfg =
     (TICKS_TO_KEEP_FROM_PRIOR_EPOCH cfg * NUMBER_OF_TRANSACTIONS_PER_TICK cfg
        * MAX_TRANSACTION_SIZE cfg div TRANSACTION_SPARSENESS cfg)"

definition tickTransactionsSize :: "config \<Rightarrow> nat" where
  "tickTransactionsSize cfg =
     tickTransactionsSizeCurrentEpoch cfg + tickTransactionsSizePreviousEpoch cfg"

definition tickTransactionOffsetsLengthCurrentEpoch :: "config \<Rightarrow> nat" where
  "tickTransactionOffsetsLengthCurrentEpoch cfg =
     MAX_NUMBER_OF_TICKS_PER_EPOCH cfg * NUMBER_OF_TRANSACTIONS_PER_TICK cfg"

definition tickTransactionOffsetsLengthPreviousEpoch :: "config \<Rightarrow> nat" where
  "tickTransactionOffsetsLengthPreviousEpoch cfg =
     TICKS_TO_KEEP_FROM_PRIOR_EPOCH cfg * NUMBER_OF_TRANSACTIONS_PER_TICK cfg"

definition tickTransactionOffsetsLength :: "config \<Rightarrow> nat" where
  "tickTransactionOffsetsLength cfg =
     tickTransactionOffsetsLengthCurrentEpoch cfg + tickTransactionOffsetsLengthPreviousEpoch cfg"

text \<open>
  \<open>tickTransactions\<close> is the byte arena at \<^verbatim>\<open>tickTransactionsPtr\<close>, \<open>tickTransactionOffsets\<close>
  the slot table at \<^verbatim>\<open>tickTransactionOffsetsPtr\<close>; the previous-epoch pointers are the
  same buffers at the constant distances \<open>tickTransactionsSizeCurrentEpoch\<close> and
  \<open>tickTransactionOffsetsLengthCurrentEpoch\<close>.
\<close>

record TickTransactionsStorage =
  tts_tickBegin :: u32
  tts_tickEnd :: u32
  tts_oldTickBegin :: u32
  tts_oldTickEnd :: u32
  tickTransactions :: "nat \<Rightarrow> u8"
  tickTransactionOffsets :: "nat \<Rightarrow> u64"
  tickTransactionsLock :: bool
  nextTickTransactionOffset :: u64
  storageSpaceCurrentEpoch :: u64

definition tts_init :: "config \<Rightarrow> TickTransactionsStorage \<Rightarrow> TickTransactionsStorage" where
  "tts_init cfg s = s\<lparr> nextTickTransactionOffset := of_nat (FIRST_TICK_TRANSACTION_OFFSET cfg),
     tts_tickBegin := 0, tts_tickEnd := 0, tts_oldTickBegin := 0, tts_oldTickEnd := 0 \<rparr>"

definition tts_tickInCurrentEpochStorage :: "TickTransactionsStorage \<Rightarrow> u32 \<Rightarrow> bool" where
  "tts_tickInCurrentEpochStorage s tick = (tick \<ge> tts_tickBegin s \<and> tick < tts_tickEnd s)"

definition tts_tickInPreviousEpochStorage :: "TickTransactionsStorage \<Rightarrow> u32 \<Rightarrow> bool" where
  "tts_tickInPreviousEpochStorage s tick = (tts_oldTickBegin s \<le> tick \<and> tick < tts_oldTickEnd s)"

definition tts_tickToIndexCurrentEpoch :: "TickTransactionsStorage \<Rightarrow> u32 \<Rightarrow> u32" where
  "tts_tickToIndexCurrentEpoch s tick = tick - tts_tickBegin s"

definition tts_tickToIndexPreviousEpoch :: "config \<Rightarrow> TickTransactionsStorage \<Rightarrow> u32 \<Rightarrow> u32" where
  "tts_tickToIndexPreviousEpoch cfg s tick =
     tick - tts_oldTickBegin s + of_nat (MAX_NUMBER_OF_TICKS_PER_EPOCH cfg)"

text \<open>
  \<^verbatim>\<open>getByTickIndex\<close> returns the position of a tick's row in the slot table; the product
  \<^verbatim>\<open>tickIndex * NUMBER_OF_TRANSACTIONS_PER_TICK\<close> is computed in \<^verbatim>\<open>unsigned int\<close>.
\<close>

definition getByTickIndex :: "config \<Rightarrow> u32 \<Rightarrow> nat" where
  "getByTickIndex cfg tickIndex = unat (tickIndex * of_nat (NUMBER_OF_TRANSACTIONS_PER_TICK cfg))"

definition getByTickInCurrentEpoch :: "config \<Rightarrow> TickTransactionsStorage \<Rightarrow> u32 \<Rightarrow> nat" where
  "getByTickInCurrentEpoch cfg s tick = getByTickIndex cfg (tts_tickToIndexCurrentEpoch s tick)"

definition getByTickInPreviousEpoch :: "config \<Rightarrow> TickTransactionsStorage \<Rightarrow> u32 \<Rightarrow> nat" where
  "getByTickInPreviousEpoch cfg s tick = getByTickIndex cfg (tts_tickToIndexPreviousEpoch cfg s tick)"

definition tts_acquireLock :: "TickTransactionsStorage \<Rightarrow> TickTransactionsStorage option" where
  "tts_acquireLock s =
     do { l \<leftarrow> ACQUIRE (tickTransactionsLock s); Some (s\<lparr>tickTransactionsLock := l\<rparr>) }"

definition tts_releaseLock :: "TickTransactionsStorage \<Rightarrow> TickTransactionsStorage" where
  "tts_releaseLock s = s\<lparr>tickTransactionsLock := RELEASE (tickTransactionsLock s)\<rparr>"

text \<open>
  The body of the inner loop of \<^verbatim>\<open>beginEpoch\<close> for one \<open>transactionIdx\<close>: the offset is
  read from the tick's current-epoch row and the rebased offset (or 0) is written to its
  previous-epoch row.
\<close>

definition rebaseSlot :: "nat \<Rightarrow> nat \<Rightarrow> u64 \<Rightarrow> u64 \<Rightarrow> nat \<Rightarrow> (nat \<Rightarrow> u64) \<Rightarrow> (nat \<Rightarrow> u64)" where
  "rebaseSlot tickOffsets tickOffsetsPrevEp firstToKeepOffset offsetDelta transactionIdx offs =
     (let offset = offs (tickOffsets + transactionIdx)
      in if offset = 0 \<or> offset < firstToKeepOffset
         then offs(tickOffsetsPrevEp + transactionIdx := 0)
         else offs(tickOffsetsPrevEp + transactionIdx := offset + offsetDelta))"

definition rebaseTick ::
  "config \<Rightarrow> TickTransactionsStorage \<Rightarrow> u64 \<Rightarrow> u64 \<Rightarrow> nat \<Rightarrow> (nat \<Rightarrow> u64) \<Rightarrow> (nat \<Rightarrow> u64)" where
  "rebaseTick cfg s firstToKeepOffset offsetDelta tickId offs =
     fold (rebaseSlot (getByTickInCurrentEpoch cfg s (of_nat tickId))
                      (getByTickInPreviousEpoch cfg s (of_nat tickId))
                      firstToKeepOffset offsetDelta)
          [0 ..< NUMBER_OF_TRANSACTIONS_PER_TICK cfg] offs"

definition tts_beginEpoch ::
  "config \<Rightarrow> TickTransactionsStorage \<Rightarrow> u32 \<Rightarrow> TickTransactionsStorage" where
  "tts_beginEpoch cfg s newInitialTick =
     (let s' =
        (if tts_tickBegin s \<noteq> 0 \<and> tts_tickInCurrentEpochStorage s newInitialTick
              \<and> tts_tickBegin s < newInitialTick
         then
           let b = newInitialTick - of_nat (TICKS_TO_KEEP_FROM_PRIOR_EPOCH cfg);
               s1 = s\<lparr> tts_oldTickEnd := newInitialTick,
                        tts_oldTickBegin := (if b < tts_tickBegin s then tts_tickBegin s else b) \<rparr>;
               totalTransactionSizesSum =
                 nextTickTransactionOffset s1 - of_nat (FIRST_TICK_TRANSACTION_OFFSET cfg);
               keepTransactionSizesSum =
                 (if totalTransactionSizesSum \<le> of_nat (tickTransactionsSizePreviousEpoch cfg)
                  then totalTransactionSizesSum
                  else of_nat (tickTransactionsSizePreviousEpoch cfg));
               firstToKeepOffset = nextTickTransactionOffset s1 - keepTransactionSizesSum;
               arena1 = copyMem (tickTransactions s1) (tickTransactionsSizeCurrentEpoch cfg)
                          (unat firstToKeepOffset) (unat keepTransactionSizesSum);
               offsetDelta = (of_nat (tickTransactionsSizeCurrentEpoch cfg) + keepTransactionSizesSum)
                               - nextTickTransactionOffset s1;
               offs1 = fold (rebaseTick cfg s1 firstToKeepOffset offsetDelta)
                         [unat (tts_oldTickBegin s1) ..< unat (tts_oldTickEnd s1)]
                         (tickTransactionOffsets s1)
           in s1\<lparr> tickTransactionOffsets :=
                      setMem offs1 0 (tickTransactionOffsetsLengthCurrentEpoch cfg) 0,
                   tickTransactions :=
                      setMem arena1 0 (tickTransactionsSizeCurrentEpoch cfg) 0 \<rparr>
         else
           s\<lparr> tickTransactionOffsets :=
                 setMem (tickTransactionOffsets s) 0 (tickTransactionOffsetsLength cfg) 0,
               tickTransactions :=
                 setMem (tickTransactions s) 0 (tickTransactionsSize cfg) 0,
               tts_oldTickBegin := 0,
               tts_oldTickEnd := 0 \<rparr>)
      in s'\<lparr> tts_tickBegin := newInitialTick,
              tts_tickEnd := newInitialTick + of_nat (MAX_NUMBER_OF_TICKS_PER_EPOCH cfg),
              nextTickTransactionOffset := of_nat (FIRST_TICK_TRANSACTION_OFFSET cfg) \<rparr>)"

subsection \<open>The epoch rollover of the arena as the specification words it\<close>

text \<open>
  The quantities of the rollover, named as in the source: the number of bytes kept
  (\<open>min(used, previous-epoch capacity)\<close>), the first offset kept, the distance by which a
  surviving offset moves, and the new value of a slot-table entry (0 for an empty entry
  and for an offset below \<open>firstToKeepOffset\<close>). \<open>keptFrom\<close> is the first tick kept: the
  last \<open>TICKS_TO_KEEP_FROM_PRIOR_EPOCH\<close> ticks, clamped to \<open>tickBegin\<close>. All of it is
  unsigned machine arithmetic.
\<close>

definition keepTransactionSizesSum :: "config \<Rightarrow> TickTransactionsStorage \<Rightarrow> u64" where
  "keepTransactionSizesSum cfg s =
     min (nextTickTransactionOffset s - of_nat (FIRST_TICK_TRANSACTION_OFFSET cfg))
         (of_nat (tickTransactionsSizePreviousEpoch cfg))"

definition firstToKeepOffset :: "config \<Rightarrow> TickTransactionsStorage \<Rightarrow> u64" where
  "firstToKeepOffset cfg s = nextTickTransactionOffset s - keepTransactionSizesSum cfg s"

definition offsetDelta :: "config \<Rightarrow> TickTransactionsStorage \<Rightarrow> u64" where
  "offsetDelta cfg s =
     (of_nat (tickTransactionsSizeCurrentEpoch cfg) + keepTransactionSizesSum cfg s)
       - nextTickTransactionOffset s"





subsection \<open>TxsPool (txs\_pool.h)\<close>

definition txsDigestsLengthCurrentEpoch :: "config \<Rightarrow> nat" where
  "txsDigestsLengthCurrentEpoch cfg =
     MAX_NUMBER_OF_TICKS_PER_EPOCH cfg * NUMBER_OF_TRANSACTIONS_PER_TICK cfg"

definition txsDigestsLengthPreviousEpoch :: "config \<Rightarrow> nat" where
  "txsDigestsLengthPreviousEpoch cfg =
     TICKS_TO_KEEP_FROM_PRIOR_EPOCH cfg * NUMBER_OF_TRANSACTIONS_PER_TICK cfg"

definition maxNumTicksToSave :: "config \<Rightarrow> nat" where
  "maxNumTicksToSave cfg = MAX_NUMBER_OF_TICKS_PER_EPOCH cfg + TICKS_TO_KEEP_FROM_PRIOR_EPOCH cfg"

text \<open>
  \<open>txsDigests\<close> is the digest buffer at \<^verbatim>\<open>txsDigestsPtr\<close> (one element per digest);
  \<^verbatim>\<open>oldTxsDigestsPtr\<close> is the same buffer at distance \<open>txsDigestsLengthCurrentEpoch\<close>.
\<close>

record TxsPool =
  tickBegin :: u32
  tickEnd :: u32
  oldTickBegin :: u32
  oldTickEnd :: u32
  txsDigests :: "nat \<Rightarrow> m256i"
  numSavedTxsPerTick :: "nat \<Rightarrow> u32"
  txsDigestsLock :: bool
  numSavedLock :: bool
  transactionsStorage :: TickTransactionsStorage

text \<open>
  \<^verbatim>\<open>init\<close>: \<open>allocated\<close> says whether both allocations succeeded. The buffers come from
  \<^verbatim>\<open>allocatePool\<close> with the contents the state holds.
\<close>

definition init :: "config \<Rightarrow> bool \<Rightarrow> TxsPool \<Rightarrow> bool \<times> TxsPool" where
  "init cfg allocated s =
     (if \<not> allocated then (False, s)
      else (True,
        s\<lparr> transactionsStorage := tts_init cfg (transactionsStorage s),
           numSavedTxsPerTick := setMem (numSavedTxsPerTick s) 0 (maxNumTicksToSave cfg) 0,
           tickBegin := 0, tickEnd := 0, oldTickBegin := 0, oldTickEnd := 0 \<rparr>))"

definition acquireLock :: "TxsPool \<Rightarrow> TxsPool option" where
  "acquireLock s =
     do { l \<leftarrow> ACQUIRE (txsDigestsLock s);
          st \<leftarrow> tts_acquireLock (transactionsStorage s);
          Some (s\<lparr> txsDigestsLock := l, transactionsStorage := st \<rparr>) }"

definition releaseLock :: "TxsPool \<Rightarrow> TxsPool option" where
  "releaseLock s =
     (let st = tts_releaseLock (transactionsStorage s)
      in Some (s\<lparr> transactionsStorage := st, txsDigestsLock := RELEASE (txsDigestsLock s) \<rparr>))"

definition tickInCurrentEpochStorage :: "TxsPool \<Rightarrow> u32 \<Rightarrow> bool" where
  "tickInCurrentEpochStorage s tick = (tick \<ge> tickBegin s \<and> tick < tickEnd s)"

definition tickInPreviousEpochStorage :: "TxsPool \<Rightarrow> u32 \<Rightarrow> bool" where
  "tickInPreviousEpochStorage s tick = (oldTickBegin s \<le> tick \<and> tick < oldTickEnd s)"

definition tickToIndexCurrentEpoch :: "TxsPool \<Rightarrow> u32 \<Rightarrow> u32" where
  "tickToIndexCurrentEpoch s tick = tick - tickBegin s"

definition tickToIndexPreviousEpoch :: "config \<Rightarrow> TxsPool \<Rightarrow> u32 \<Rightarrow> u32" where
  "tickToIndexPreviousEpoch cfg s tick =
     tick - oldTickBegin s + of_nat (MAX_NUMBER_OF_TICKS_PER_EPOCH cfg)"

definition getNumberOfTickTxs :: "config \<Rightarrow> TxsPool \<Rightarrow> u32 \<Rightarrow> u32 option" where
  "getNumberOfTickTxs cfg s tick =
     do { l \<leftarrow> ACQUIRE (numSavedLock s);
          Some (if tickInPreviousEpochStorage s tick
                then numSavedTxsPerTick s (unat (tickToIndexPreviousEpoch cfg s tick))
                else if tickInCurrentEpochStorage s tick
                then numSavedTxsPerTick s (unat (tickToIndexCurrentEpoch s tick))
                else 0) }"

text \<open>The two summation loops of \<^verbatim>\<open>getNumberOfPendingTxs\<close>, over \<open>t = from, ..., to - 1\<close>.\<close>

definition sumCurrentEpoch :: "TxsPool \<Rightarrow> u32 \<Rightarrow> u32 \<Rightarrow> u32 \<Rightarrow> u32" where
  "sumCurrentEpoch s startTick endTick res =
     fold (\<lambda>t res. res + numSavedTxsPerTick s (unat (tickToIndexCurrentEpoch s (of_nat t))))
       [unat startTick ..< unat endTick] res"

definition sumPreviousEpoch :: "config \<Rightarrow> TxsPool \<Rightarrow> u32 \<Rightarrow> u32 \<Rightarrow> u32 \<Rightarrow> u32" where
  "sumPreviousEpoch cfg s oldStartTick endTick res =
     fold (\<lambda>t res. res + numSavedTxsPerTick s (unat (tickToIndexPreviousEpoch cfg s (of_nat t))))
       [unat oldStartTick ..< unat endTick] res"

definition getNumberOfPendingTxs :: "config \<Rightarrow> TxsPool \<Rightarrow> u32 \<Rightarrow> u32 option" where
  "getNumberOfPendingTxs cfg s tick =
     (let (startTick, oldStartTick) =
        (if tick < oldTickBegin s \<or> oldTickBegin s = 0 \<and> tick < tickBegin s
         then (tickBegin s, oldTickBegin s)
         else if tickInPreviousEpochStorage s tick
         then (tickBegin s, tick + 1)
         else if tickInCurrentEpochStorage s tick
         then (tick + 1, oldTickEnd s)
         else (tickEnd s, oldTickEnd s))
      in do { l \<leftarrow> ACQUIRE (numSavedLock s);
              Some (sumPreviousEpoch cfg s oldStartTick (oldTickEnd s)
                     (sumCurrentEpoch s startTick (tickEnd s) 0)) })"

text \<open>
  The critical section of \<^verbatim>\<open>update\<close> (the code between taking and releasing the locks).
\<close>

definition update_locked ::
  "config \<Rightarrow> (u8 list \<Rightarrow> m256i) \<Rightarrow> u32 \<Rightarrow> u32 \<Rightarrow> TxsPool \<Rightarrow> Transaction \<Rightarrow> bool \<times> TxsPool" where
  "update_locked cfg K12 tickIndex transactionSize s1 tx =
     (let st = transactionsStorage s1;
          count = numSavedTxsPerTick s1 (unat tickIndex)
      in if count < of_nat (NUMBER_OF_TRANSACTIONS_PER_TICK cfg)
            \<and> nextTickTransactionOffset st + ucast transactionSize
                \<le> storageSpaceCurrentEpoch st
         then
           let transactionOffset = nextTickTransactionOffset st;
               image = take (unat transactionSize) (tx_bytes tx)
           in (True,
               s1\<lparr> txsDigests := (txsDigests s1)
                     (unat (tickIndex * of_nat (NUMBER_OF_TRANSACTIONS_PER_TICK cfg) + count)
                        := K12 image),
                   transactionsStorage := st
                     \<lparr> tickTransactionOffsets := (tickTransactionOffsets st)
                          (getByTickIndex cfg tickIndex + unat count := transactionOffset),
                       tickTransactions :=
                          writeBytes (tickTransactions st) (unat transactionOffset) image,
                       nextTickTransactionOffset :=
                          nextTickTransactionOffset st + ucast transactionSize \<rparr>,
                   numSavedTxsPerTick := (numSavedTxsPerTick s1)
                     (unat tickIndex := count + 1) \<rparr>)
         else (False, s1))"

definition update ::
  "config \<Rightarrow> (u8 list \<Rightarrow> m256i) \<Rightarrow> TxsPool \<Rightarrow> Transaction \<Rightarrow> (bool \<times> TxsPool) option" where
  "update cfg K12 s tx =
     (if checkValidity tx \<and> tickInCurrentEpochStorage s (tx_tick tx)
      then
        let tickIndex = tickToIndexCurrentEpoch s (tx_tick tx);
            transactionSize = totalSize tx
        in do {
          l \<leftarrow> ACQUIRE (numSavedLock s);
          s1 \<leftarrow> acquireLock (s\<lparr>numSavedLock := l\<rparr>);
          (txAdded, s2) \<leftarrow> Some (update_locked cfg K12 tickIndex transactionSize s1 tx);
          s3 \<leftarrow> releaseLock s2;
          Some (txAdded, s3\<lparr>numSavedLock := RELEASE (numSavedLock s3)\<rparr>) }
      else Some (False, s))"

text \<open>
  \<^verbatim>\<open>get\<close> and \<^verbatim>\<open>getDigest\<close>: \<open>Ptr off\<close> is the pointer \<^verbatim>\<open>tickTransactionsPtr + off\<close>, and
  \<open>Ptr i\<close> the pointer \<^verbatim>\<open>&txsDigestsPtr[i]\<close>.
\<close>

definition get :: "config \<Rightarrow> TxsPool \<Rightarrow> u32 \<Rightarrow> u32 \<Rightarrow> u64 ptr option" where
  "get cfg s tick index =
     (let found =
        (if tickInCurrentEpochStorage s tick then Some (tickToIndexCurrentEpoch s tick)
         else if tickInPreviousEpochStorage s tick then Some (tickToIndexPreviousEpoch cfg s tick)
         else None)
      in case found of
           None \<Rightarrow> Some nullptr
         | Some tickIndex \<Rightarrow>
             do { l \<leftarrow> ACQUIRE (numSavedLock s);
                  Some (if index < numSavedTxsPerTick s (unat tickIndex)
                        then Ptr (tickTransactionOffsets (transactionsStorage s)
                                    (getByTickIndex cfg tickIndex + unat index))
                        else nullptr) })"

definition getDigest :: "config \<Rightarrow> TxsPool \<Rightarrow> u32 \<Rightarrow> u32 \<Rightarrow> nat ptr option" where
  "getDigest cfg s tick index =
     (let found =
        (if tickInCurrentEpochStorage s tick then Some (tickToIndexCurrentEpoch s tick)
         else if tickInPreviousEpochStorage s tick then Some (tickToIndexPreviousEpoch cfg s tick)
         else None)
      in case found of
           None \<Rightarrow> Some nullptr
         | Some tickIndex \<Rightarrow>
             do { l \<leftarrow> ACQUIRE (numSavedLock s);
                  Some (if index < numSavedTxsPerTick s (unat tickIndex)
                        then Ptr (unat (tickIndex * of_nat (NUMBER_OF_TRANSACTIONS_PER_TICK cfg) + index))
                        else nullptr) })"

text \<open>
  The search loop of \<^verbatim>\<open>beginEpoch\<close> for \<^verbatim>\<open>firstNonZero\<close>: the index of the first non-zero
  offset of a row, or \<open>-1\<close>.
\<close>

function findFirstNonZero :: "(nat \<Rightarrow> u64) \<Rightarrow> nat \<Rightarrow> nat \<Rightarrow> nat \<Rightarrow> int" where
  "findFirstNonZero offs offsets n tx =
     (if tx < n
      then (if offs (offsets + tx) \<noteq> 0 then int tx
            else findFirstNonZero offs offsets n (tx + 1))
      else -1)"
  by pat_completeness auto
termination
  by (relation "measure (\<lambda>(offs, offsets, n, tx). n - tx)") auto

declare findFirstNonZero.simps [simp del]

text \<open>One step of the loop that moves offsets and digests down by \<open>firstNonZero\<close>.\<close>

definition shiftEntry ::
  "nat \<Rightarrow> nat \<Rightarrow> int \<Rightarrow> nat \<Rightarrow> (nat \<Rightarrow> u64) \<times> (nat \<Rightarrow> m256i) \<Rightarrow> (nat \<Rightarrow> u64) \<times> (nat \<Rightarrow> m256i)" where
  "shiftEntry offsets digests firstNonZero tx = (\<lambda>(offs, digs).
     (offs(offsets + tx := offs (offsets + unat ((of_nat tx :: u32) + word_of_int firstNonZero))),
      digs(digests + tx := digs (digests + unat ((of_nat tx :: u32) + word_of_int firstNonZero)))))"

text \<open>
  The body of the loop over the kept ticks: the state is the slot table, the digest
  buffer and the per-tick counts.
\<close>

definition compactTick ::
  "config \<Rightarrow> TxsPool \<Rightarrow> nat \<Rightarrow>
     (nat \<Rightarrow> u64) \<times> (nat \<Rightarrow> m256i) \<times> (nat \<Rightarrow> u32) \<Rightarrow>
     (nat \<Rightarrow> u64) \<times> (nat \<Rightarrow> m256i) \<times> (nat \<Rightarrow> u32)" where
  "compactTick cfg s t = (\<lambda>(offs, digs, nums).
     let index = tickToIndexPreviousEpoch cfg s (of_nat t);
         offsets = getByTickIndex cfg index;
         digests = unat (index * of_nat (NUMBER_OF_TRANSACTIONS_PER_TICK cfg))
     in if nums (unat index) \<noteq> 0
        then
          let firstNonZero =
                findFirstNonZero offs offsets (NUMBER_OF_TRANSACTIONS_PER_TICK cfg) 0
          in if firstNonZero < 0 then (offs, digs, nums(unat index := 0))
             else if firstNonZero > 0
             then
               let nums' = nums(unat index := nums (unat index) - word_of_int firstNonZero);
                   (offs', digs') =
                      fold (shiftEntry offsets digests firstNonZero)
                        [0 ..< unat (nums' (unat index))] (offs, digs)
               in (setMem offs' (offsets + unat (nums' (unat index))) (nat firstNonZero) 0,
                   setMem digs' (digests + unat (nums' (unat index))) (nat firstNonZero) 0,
                   nums')
             else (offs, digs, nums)
        else (offs, digs, nums))"

definition beginEpoch :: "config \<Rightarrow> TxsPool \<Rightarrow> u32 \<Rightarrow> TxsPool" where
  "beginEpoch cfg s0 newInitialTick =
     (let s = s0\<lparr> transactionsStorage :=
                   tts_beginEpoch cfg (transactionsStorage s0) newInitialTick \<rparr>;
          s' =
        (if tickBegin s \<noteq> 0 \<and> tickInCurrentEpochStorage s newInitialTick
              \<and> tickBegin s < newInitialTick
         then
           let b = newInitialTick - of_nat (TICKS_TO_KEEP_FROM_PRIOR_EPOCH cfg);
               s1 = s\<lparr> oldTickEnd := newInitialTick,
                        oldTickBegin := (if b < tickBegin s then tickBegin s else b) \<rparr>;
               tickIndex = tickToIndexCurrentEpoch s1 (oldTickBegin s1);
               tickCount = oldTickEnd s1 - oldTickBegin s1;
               digs1 = copyMem (txsDigests s1) (txsDigestsLengthCurrentEpoch cfg)
                         (unat (tickIndex * of_nat (NUMBER_OF_TRANSACTIONS_PER_TICK cfg)))
                         (unat (tickCount * of_nat (NUMBER_OF_TRANSACTIONS_PER_TICK cfg)));
               nums1 = copyMem (numSavedTxsPerTick s1) (MAX_NUMBER_OF_TICKS_PER_EPOCH cfg)
                         (unat tickIndex) (unat tickCount);
               digs2 = setMem digs1 0 (txsDigestsLengthCurrentEpoch cfg) 0;
               nums2 = setMem nums1 0 (MAX_NUMBER_OF_TICKS_PER_EPOCH cfg) 0;
               (offs3, digs3, nums3) =
                  fold (compactTick cfg s1) [unat (oldTickBegin s1) ..< unat (oldTickEnd s1)]
                    (tickTransactionOffsets (transactionsStorage s1), digs2, nums2)
           in s1\<lparr> txsDigests := digs3,
                   numSavedTxsPerTick := nums3,
                   transactionsStorage :=
                     (transactionsStorage s1)\<lparr> tickTransactionOffsets := offs3 \<rparr> \<rparr>
         else
           s\<lparr> txsDigests := setMem (txsDigests s) 0
                 (txsDigestsLengthCurrentEpoch cfg + txsDigestsLengthPreviousEpoch cfg) 0,
               numSavedTxsPerTick := setMem (numSavedTxsPerTick s) 0 (maxNumTicksToSave cfg) 0,
               oldTickBegin := 0,
               oldTickEnd := 0 \<rparr>)
      in s'\<lparr> tickBegin := newInitialTick,
              tickEnd := newInitialTick + of_nat (MAX_NUMBER_OF_TICKS_PER_EPOCH cfg) \<rparr>)"

subsection \<open>Admission as the specification words it\<close>

text \<open>
  The acceptance condition of \<^verbatim>\<open>update\<close> and the state after an accepted transaction, in
  the words of the specification and in unbounded arithmetic: the transaction is valid,
  its tick is in the current-epoch range, the tick's count is below
  \<open>NUMBER_OF_TRANSACTIONS_PER_TICK\<close> and the transaction fits into the arena; then the
  digest goes to \<open>[tickIndex][count]\<close>, the bytes to the old bump offset (byte \<open>k\<close> of the
  transaction to arena position \<open>bump + k\<close> for \<open>k < totalSize()\<close>, every other arena byte
  as it was), that offset to the slot table at the same position, the bump pointer
  advances by \<open>totalSize()\<close> and the count grows by one.
\<close>

definition accepts :: "config \<Rightarrow> TxsPool \<Rightarrow> Transaction \<Rightarrow> bool" where
  "accepts cfg s tx =
     (checkValidity tx \<and> tickBegin s \<le> tx_tick tx \<and> tx_tick tx < tickEnd s
      \<and> unat (numSavedTxsPerTick s (unat (tx_tick tx) - unat (tickBegin s)))
            < NUMBER_OF_TRANSACTIONS_PER_TICK cfg
      \<and> unat (nextTickTransactionOffset (transactionsStorage s)) + unat (totalSize tx)
            \<le> unat (storageSpaceCurrentEpoch (transactionsStorage s)))"

definition admitted :: "config \<Rightarrow> (u8 list \<Rightarrow> m256i) \<Rightarrow> TxsPool \<Rightarrow> Transaction \<Rightarrow> TxsPool" where
  "admitted cfg K12 s tx =
     (let tickIndex = unat (tx_tick tx) - unat (tickBegin s);
          count = unat (numSavedTxsPerTick s tickIndex);
          position = tickIndex * NUMBER_OF_TRANSACTIONS_PER_TICK cfg + count;
          st = transactionsStorage s;
          bump = nextTickTransactionOffset st;
          image = take (unat (totalSize tx)) (tx_bytes tx)
      in s\<lparr> txsDigests := (txsDigests s)(position := K12 image),
             transactionsStorage := st
               \<lparr> tickTransactionOffsets := (tickTransactionOffsets st)(position := bump),
                 tickTransactions :=
                   (\<lambda>i. if unat bump \<le> i \<and> i < unat bump + unat (totalSize tx)
                        then tx_bytes tx ! (i - unat bump)
                        else tickTransactions st i),
                 nextTickTransactionOffset := of_nat (unat bump + unat (totalSize tx)) \<rparr>,
             numSavedTxsPerTick := (numSavedTxsPerTick s)(tickIndex := of_nat (count + 1)) \<rparr>)"

subsection \<open>Pending counts as the specification words them\<close>

text \<open>
  \<open>savedCount\<close> is the per-tick count of a stored tick (the value \<^verbatim>\<open>getNumberOfTickTxs\<close>
  returns), \<open>sumTicks a b\<close> the sum of the counts of the ticks \<open>a, ..., b - 1\<close>.
\<close>

definition savedCount :: "config \<Rightarrow> TxsPool \<Rightarrow> u32 \<Rightarrow> u32" where
  "savedCount cfg s tick =
     (if tickInPreviousEpochStorage s tick
      then numSavedTxsPerTick s (unat (tickToIndexPreviousEpoch cfg s tick))
      else if tickInCurrentEpochStorage s tick
      then numSavedTxsPerTick s (unat (tickToIndexCurrentEpoch s tick))
      else 0)"

definition sumTicks :: "config \<Rightarrow> TxsPool \<Rightarrow> nat \<Rightarrow> nat \<Rightarrow> u32" where
  "sumTicks cfg s a b = (\<Sum>t = a..<b. savedCount cfg s (of_nat t))"

subsection \<open>The tick-range invariants\<close>

text \<open>
  The invariants that \<^verbatim>\<open>checkStateConsistencyWithAssert\<close> asserts on the tick ranges of the
  pool and of its transaction storage.
\<close>

definition tickRangeInvariant :: "config \<Rightarrow> TxsPool \<Rightarrow> bool" where
  "tickRangeInvariant cfg s =
     (oldTickEnd s \<le> tickBegin s
      \<and> tickBegin s \<le> tickEnd s
      \<and> unat (tickEnd s) - unat (tickBegin s) \<le> MAX_NUMBER_OF_TICKS_PER_EPOCH cfg
      \<and> oldTickBegin s \<le> oldTickEnd s
      \<and> unat (oldTickEnd s) - unat (oldTickBegin s) \<le> TICKS_TO_KEEP_FROM_PRIOR_EPOCH cfg)"

definition tts_tickRangeInvariant :: "config \<Rightarrow> TickTransactionsStorage \<Rightarrow> bool" where
  "tts_tickRangeInvariant cfg s =
     (tts_oldTickEnd s \<le> tts_tickBegin s
      \<and> tts_tickBegin s \<le> tts_tickEnd s
      \<and> unat (tts_tickEnd s) - unat (tts_tickBegin s) \<le> MAX_NUMBER_OF_TICKS_PER_EPOCH cfg
      \<and> tts_oldTickBegin s \<le> tts_oldTickEnd s
      \<and> unat (tts_oldTickEnd s) - unat (tts_oldTickBegin s) \<le> TICKS_TO_KEEP_FROM_PRIOR_EPOCH cfg)"

subsection \<open>The slot invariant\<close>


subsection \<open>Compaction as the specification words it\<close>







subsection \<open>The second copy of the TxsPool source (unnamed file)\<close>

text \<open>
  The sources hold a second copy of the class \<^verbatim>\<open>TxsPool\<close>. It differs from
  \<^verbatim>\<open>txs_pool.h\<close> in \<^verbatim>\<open>releaseLock\<close>, \<^verbatim>\<open>getNumberOfPendingTxs\<close>, \<^verbatim>\<open>update\<close> (no result) and
  \<^verbatim>\<open>beginEpoch\<close>; the functions that differ are embedded here under the suffix \<open>_copy2\<close>.
\<close>

definition releaseLock_copy2 :: "TxsPool \<Rightarrow> TxsPool option" where
  "releaseLock_copy2 s =
     do { st \<leftarrow> tts_acquireLock (transactionsStorage s);
          Some (s\<lparr> transactionsStorage := st, txsDigestsLock := RELEASE (txsDigestsLock s) \<rparr>) }"



subsection \<open>TickStorage snapshots (tick\_storage.h, TICK\_STORAGE\_AUTOSAVE\_MODE)\<close>

text \<open>
  \<open>outTotalTransactionSize\<close> is a \<^verbatim>\<open>long long\<close>, kept as its 64-bit two's complement image.
\<close>

record MetaData =
  md_epoch :: u32
  md_tickBegin :: u32
  md_tickEnd :: u32
  outTotalTransactionSize :: u64
  outNextTickTransactionOffset :: u64

text \<open>
  Modelled from the spec: the file primitives \<^verbatim>\<open>saveLargeFile\<close> and \<^verbatim>\<open>loadLargeFile\<close> and
  the helper \<^verbatim>\<open>addEpochToFileName\<close>. A file name is one of the five templates with the
  epoch suffix written by the helper from its \<^verbatim>\<open>short\<close> argument; the functions below pass
  the name they have just prepared instead of keeping the name buffers as state. Files
  hold what the memory holds (on-disk layout = in-memory layout): the metadata record,
  one \<open>TickData\<close> image per tick, one row of \<open>Tick\<close> images per tick, slot-table entries,
  arena bytes. \<^verbatim>\<open>saveLargeFile\<close> either writes the whole content or fails and writes
  nothing (\<open>written\<close> tells which); \<^verbatim>\<open>loadLargeFile\<close> succeeds when the file exists and
  holds at least the requested number of elements.
\<close>

datatype file_name =
    SNAPSHOT_METADATA_FILE_NAME "16 word"
  | SNAPSHOT_TICK_DATA_FILE_NAME "16 word"
  | SNAPSHOT_TICKS_FILE_NAME "16 word"
  | SNAPSHOT_TICK_TRANSACTION_OFFSET_FILE_NAME "16 word"
  | SNAPSHOT_TRANSACTIONS_FILE_NAME "16 word"

type_synonym TickData = "u8 list"
type_synonym TickRow = "u8 list"

datatype snapshot_file =
    MetaFile MetaData
  | TickDataFile "TickData list"
  | TicksFile "TickRow list"
  | OffsetsFile "u64 list"
  | TransactionsFile "u8 list"

type_synonym file_system = "file_name \<Rightarrow> snapshot_file option"

definition saveLargeFile :: "bool \<Rightarrow> file_system \<Rightarrow> file_name \<Rightarrow> snapshot_file \<Rightarrow> bool \<times> file_system" where
  "saveLargeFile written fs name content =
     (if written then (True, fs(name \<mapsto> content)) else (False, fs))"

text \<open>
  The in-memory state of \<^verbatim>\<open>TickStorage\<close> that the snapshot functions read and write:
  \<open>ts_tickData\<close> and \<open>ts_ticks\<close> are the buffers at \<^verbatim>\<open>tickDataPtr\<close> and \<^verbatim>\<open>ticksPtr\<close> (one
  element per tick), the slot table, the arena and \<open>nextTickTransactionOffset\<close> are those of
  the transaction storage.
\<close>

record TickStorage =
  ts_tickBegin :: u32
  ts_tickData :: "nat \<Rightarrow> TickData"
  ts_ticks :: "nat \<Rightarrow> TickRow"
  ts_transactionsStorage :: TickTransactionsStorage
  metaData :: MetaData
  lastCheckTransactionOffset :: u64

definition loadMetaData :: "file_system \<Rightarrow> 16 word \<Rightarrow> TickStorage \<Rightarrow> bool \<times> TickStorage" where
  "loadMetaData fs epoch s =
     (case fs (SNAPSHOT_METADATA_FILE_NAME epoch) of
        Some (MetaFile m) \<Rightarrow> (True, s\<lparr>metaData := m\<rparr>)
      | _ \<Rightarrow> (False, s))"

definition checkMetaData :: "config \<Rightarrow> TickStorage \<Rightarrow> bool" where
  "checkMetaData cfg s =
     (if md_tickBegin (metaData s) > md_tickEnd (metaData s) then False
      else if md_tickBegin (metaData s) \<noteq> ts_tickBegin s then False
      else if md_tickBegin (metaData s) + of_nat (MAX_NUMBER_OF_TICKS_PER_EPOCH cfg)
                < md_tickEnd (metaData s) then False
      else if \<not> NO_UEFI cfg \<and> md_epoch (metaData s) \<noteq> of_nat (EPOCH cfg) then False
      else True)"

definition loadTickData :: "file_system \<Rightarrow> 16 word \<Rightarrow> u64 \<Rightarrow> TickStorage \<Rightarrow> bool \<times> TickStorage" where
  "loadTickData fs epoch nTick s =
     (case fs (SNAPSHOT_TICK_DATA_FILE_NAME epoch) of
        Some (TickDataFile xs) \<Rightarrow>
          if unat nTick \<le> length xs
          then (True, s\<lparr>ts_tickData := writeBytes (ts_tickData s) 0 (take (unat nTick) xs)\<rparr>)
          else (False, s)
      | _ \<Rightarrow> (False, s))"

definition loadTicks :: "file_system \<Rightarrow> 16 word \<Rightarrow> u64 \<Rightarrow> TickStorage \<Rightarrow> bool \<times> TickStorage" where
  "loadTicks fs epoch nTick s =
     (case fs (SNAPSHOT_TICKS_FILE_NAME epoch) of
        Some (TicksFile xs) \<Rightarrow>
          if unat nTick \<le> length xs
          then (True, s\<lparr>ts_ticks := writeBytes (ts_ticks s) 0 (take (unat nTick) xs)\<rparr>)
          else (False, s)
      | _ \<Rightarrow> (False, s))"

definition loadTickTransactionOffsets ::
  "config \<Rightarrow> file_system \<Rightarrow> 16 word \<Rightarrow> u64 \<Rightarrow> TickStorage \<Rightarrow> bool \<times> TickStorage" where
  "loadTickTransactionOffsets cfg fs epoch nTick s =
     (let n = unat nTick * NUMBER_OF_TRANSACTIONS_PER_TICK cfg
      in case fs (SNAPSHOT_TICK_TRANSACTION_OFFSET_FILE_NAME epoch) of
        Some (OffsetsFile xs) \<Rightarrow>
          if n \<le> length xs
          then (True, s\<lparr>ts_transactionsStorage := (ts_transactionsStorage s)
                  \<lparr>tickTransactionOffsets :=
                     writeBytes (tickTransactionOffsets (ts_transactionsStorage s)) 0 (take n xs)\<rparr>\<rparr>)
          else (False, s)
      | _ \<Rightarrow> (False, s))"

definition loadTransactions :: "file_system \<Rightarrow> 16 word \<Rightarrow> u64 \<Rightarrow> TickStorage \<Rightarrow> bool \<times> TickStorage" where
  "loadTransactions fs epoch totalLoadSize s =
     (case fs (SNAPSHOT_TRANSACTIONS_FILE_NAME epoch) of
        Some (TransactionsFile xs) \<Rightarrow>
          if unat totalLoadSize \<le> length xs
          then (True, s\<lparr>ts_transactionsStorage := (ts_transactionsStorage s)
                  \<lparr>tickTransactions :=
                     writeBytes (tickTransactions (ts_transactionsStorage s)) 0
                       (take (unat totalLoadSize) xs)\<rparr>\<rparr>)
          else (False, s)
      | _ \<Rightarrow> (False, s))"

text \<open>
  \<^verbatim>\<open>initMetaData(short epoch)\<close>: the assignment to the \<^verbatim>\<open>unsigned int\<close> field
  sign-extends the \<^verbatim>\<open>short\<close>.
\<close>

definition initMetaData :: "TickStorage \<Rightarrow> 16 word \<Rightarrow> TickStorage" where
  "initMetaData s epoch =
     s\<lparr> metaData := (metaData s)\<lparr> md_tickBegin := ts_tickBegin s,
                                    md_tickEnd := ts_tickBegin s,
                                    md_epoch := scast epoch \<rparr>,
        lastCheckTransactionOffset := ucast (ts_tickBegin s) \<rparr>"

definition tryLoadFromFile ::
  "config \<Rightarrow> file_system \<Rightarrow> TickStorage \<Rightarrow> 16 word \<Rightarrow> int \<times> TickStorage" where
  "tryLoadFromFile cfg fs s epoch =
     (case loadMetaData fs epoch s of
        (False, s1) \<Rightarrow> (1, initMetaData s1 epoch)
      | (True, s1) \<Rightarrow>
          if \<not> checkMetaData cfg s1 then (2, initMetaData s1 epoch)
          else
            let s2 = s1\<lparr>ts_transactionsStorage := (ts_transactionsStorage s1)
                        \<lparr>nextTickTransactionOffset :=
                           outNextTickTransactionOffset (metaData s1)\<rparr>\<rparr>;
                nTick = (ucast (md_tickEnd (metaData s2) - md_tickBegin (metaData s2) + 1) :: u64)
            in case loadTickData fs epoch nTick s2 of
                 (False, s3) \<Rightarrow> (5, initMetaData s3 epoch)
               | (True, s3) \<Rightarrow>
                   (case loadTicks fs epoch nTick s3 of
                      (False, s4) \<Rightarrow> (4, initMetaData s4 epoch)
                    | (True, s4) \<Rightarrow>
                        (case loadTickTransactionOffsets cfg fs epoch nTick s4 of
                           (False, s5) \<Rightarrow> (3, initMetaData s5 epoch)
                         | (True, s5) \<Rightarrow>
                             (case loadTransactions fs epoch
                                     (outTotalTransactionSize (metaData s5)) s5 of
                                (False, s6) \<Rightarrow> (2, initMetaData s6 epoch)
                              | (True, s6) \<Rightarrow> (0, s6)))))"

text \<open>The record that \<^verbatim>\<open>saveInvalidateData\<close> fills in field by field.\<close>

definition invalidMetaData :: MetaData where
  "invalidMetaData = \<lparr> md_epoch = 0, md_tickBegin = 0, md_tickEnd = 0,
      outTotalTransactionSize = 0, outNextTickTransactionOffset = 0 \<rparr>"

definition saveInvalidateData :: "bool \<Rightarrow> file_system \<Rightarrow> u32 \<Rightarrow> bool \<times> file_system" where
  "saveInvalidateData written fs epoch =
     saveLargeFile written fs (SNAPSHOT_METADATA_FILE_NAME (ucast epoch))
       (MetaFile invalidMetaData)"

subsection \<open>The digest index (tick\_storage.h, TransactionsDigestAccess)\<close>

text \<open>
  The hash map at \<^verbatim>\<open>tickTransactionsDigestPtr\<close>: a table of \<open>maxNumberTxsCurrentEpoch\<close>
  entries, each a digest and a transaction pointer (\<open>Ptr a\<close> is the address \<open>a\<close>). The index
  arithmetic is \<^verbatim>\<open>unsigned long long\<close>; an index stays below the capacity, so it is kept
  as a natural number. A probe loop that never ends is \<open>None\<close>.
\<close>

definition maxNumberTxsCurrentEpoch :: "config \<Rightarrow> nat" where
  "maxNumberTxsCurrentEpoch cfg =
     MAX_NUMBER_OF_TICKS_PER_EPOCH cfg * NUMBER_OF_TRANSACTIONS_PER_TICK cfg"

record HashMapEntry =
  hme_digest :: m256i
  hme_transaction :: "nat ptr"

definition isZero :: "m256i \<Rightarrow> bool" where
  "isZero d = (d = 0)"

text \<open>\<^verbatim>\<open>digest.m256i_u32[7]\<close> is the most significant 32-bit lane of the digest.\<close>

definition m256i_u32_7 :: "m256i \<Rightarrow> u32" where
  "m256i_u32_7 d = ucast (drop_bit 224 d)"

definition hashFunc :: "config \<Rightarrow> m256i \<Rightarrow> nat" where
  "hashFunc cfg d = unat (m256i_u32_7 d) mod maxNumberTxsCurrentEpoch cfg"

text \<open>
  The probe loop of \<^verbatim>\<open>insertTransaction\<close>: \<open>Some (Some index)\<close> is the free slot found,
  \<open>Some None\<close> the early return when the probe is back at \<open>original_index\<close>.
\<close>

partial_function (option) insertProbe ::
  "nat \<Rightarrow> (nat \<Rightarrow> HashMapEntry) \<Rightarrow> nat \<Rightarrow> nat \<Rightarrow> nat option option" where
  "insertProbe cap pHashMap original_index index =
     (if \<not> isZero (hme_digest (pHashMap index))
      then (let index' = (index + 1) mod cap
            in if index' = original_index then Some None
               else insertProbe cap pHashMap original_index index')
      else Some (Some index))"

definition insertTransaction ::
  "config \<Rightarrow> (nat \<Rightarrow> HashMapEntry) \<Rightarrow> m256i \<Rightarrow> nat ptr \<Rightarrow> (nat \<Rightarrow> HashMapEntry) option" where
  "insertTransaction cfg pHashMap d transaction =
     (if isZero d then Some pHashMap
      else
        do { found \<leftarrow> insertProbe (maxNumberTxsCurrentEpoch cfg) pHashMap
                        (hashFunc cfg d) (hashFunc cfg d);
             case found of
               None \<Rightarrow> Some pHashMap
             | Some index \<Rightarrow>
                 Some (pHashMap(index := \<lparr> hme_digest = d, hme_transaction = transaction \<rparr>)) })"

partial_function (option) findProbe ::
  "nat \<Rightarrow> (nat \<Rightarrow> HashMapEntry) \<Rightarrow> m256i \<Rightarrow> nat \<Rightarrow> nat \<Rightarrow> nat ptr option" where
  "findProbe cap pHashMap d original_index index =
     (if \<not> isZero (hme_digest (pHashMap index))
      then (if hme_digest (pHashMap index) = d then Some (hme_transaction (pHashMap index))
            else (let index' = (index + 1) mod cap
                  in if index' = original_index then Some nullptr
                     else findProbe cap pHashMap d original_index index'))
      else Some nullptr)"

definition findTransaction :: "config \<Rightarrow> (nat \<Rightarrow> HashMapEntry) \<Rightarrow> m256i \<Rightarrow> nat ptr option" where
  "findTransaction cfg pHashMap d =
     (if isZero d then Some nullptr
      else findProbe (maxNumberTxsCurrentEpoch cfg) pHashMap d (hashFunc cfg d) (hashFunc cfg d))"

text \<open>The table after \<^verbatim>\<open>init\<close> (all bytes zero), and a sequence of insertions.\<close>

definition emptyTable :: "nat \<Rightarrow> HashMapEntry" where
  "emptyTable = (\<lambda>_. \<lparr> hme_digest = 0, hme_transaction = nullptr \<rparr>)"

fun insertAll ::
  "config \<Rightarrow> (nat \<Rightarrow> HashMapEntry) \<Rightarrow> (m256i \<times> nat ptr) list \<Rightarrow> (nat \<Rightarrow> HashMapEntry) option" where
  "insertAll cfg pHashMap [] = Some pHashMap"
| "insertAll cfg pHashMap ((d, transaction) # rest) =
     do { pHashMap' \<leftarrow> insertTransaction cfg pHashMap d transaction;
          insertAll cfg pHashMap' rest }"

text \<open>
  The invariant of the table over the list \<open>S\<close> of the pairs stored so far: every occupied
  slot holds a pair of \<open>S\<close>; every pair of \<open>S\<close> sits in a slot of its probe sequence with
  all earlier slots of the sequence occupied; no digest occupies two slots; the number
  of occupied slots is the length of \<open>S\<close>; the digests of \<open>S\<close> are distinct and not zero.
\<close>

definition occupied :: "(nat \<Rightarrow> HashMapEntry) \<Rightarrow> nat \<Rightarrow> bool" where
  "occupied tbl i = (hme_digest (tbl i) \<noteq> 0)"

definition table_inv :: "config \<Rightarrow> (nat \<Rightarrow> HashMapEntry) \<Rightarrow> (m256i \<times> nat ptr) list \<Rightarrow> bool" where
  "table_inv cfg tbl S =
     (let cap = maxNumberTxsCurrentEpoch cfg in
      (\<forall>i<cap. occupied tbl i \<longrightarrow> (hme_digest (tbl i), hme_transaction (tbl i)) \<in> set S)
      \<and> (\<forall>(d, p)\<in>set S. \<exists>k<cap.
            tbl ((hashFunc cfg d + k) mod cap) = \<lparr> hme_digest = d, hme_transaction = p \<rparr>
            \<and> (\<forall>k'<k. occupied tbl ((hashFunc cfg d + k') mod cap)))
      \<and> (\<forall>i<cap. \<forall>j<cap. occupied tbl i \<longrightarrow> hme_digest (tbl i) = hme_digest (tbl j) \<longrightarrow> i = j)
      \<and> card {i. i < cap \<and> occupied tbl i} = length S
      \<and> distinct (map fst S) \<and> (\<forall>(d, p)\<in>set S. d \<noteq> 0))"

subsection \<open>Concrete configurations and states\<close>

definition cfg_small :: config where
  "cfg_small = \<lparr> MAX_NUMBER_OF_TICKS_PER_EPOCH = 4,
      TICKS_TO_KEEP_FROM_PRIOR_EPOCH = 2,
      NUMBER_OF_TRANSACTIONS_PER_TICK = 3,
      MAX_TRANSACTION_SIZE = 8,
      TRANSACTION_SPARSENESS = 1,
      FIRST_TICK_TRANSACTION_OFFSET = 8,
      NUMBER_OF_CONTRACT_EXECUTION_PROCESSORS = 4,
      NO_UEFI = True,
      EPOCH = 0 \<rparr>"

definition cfg_keep100 :: config where
  "cfg_keep100 = \<lparr> MAX_NUMBER_OF_TICKS_PER_EPOCH = 1000,
      TICKS_TO_KEEP_FROM_PRIOR_EPOCH = 100,
      NUMBER_OF_TRANSACTIONS_PER_TICK = 4,
      MAX_TRANSACTION_SIZE = 8,
      TRANSACTION_SPARSENESS = 1,
      FIRST_TICK_TRANSACTION_OFFSET = 8,
      NUMBER_OF_CONTRACT_EXECUTION_PROCESSORS = 2,
      NO_UEFI = True,
      EPOCH = 0 \<rparr>"

text \<open>The statically initialised objects: every buffer zero, every lock free.\<close>

definition storage0 :: "config \<Rightarrow> TickTransactionsStorage" where
  "storage0 cfg = \<lparr> tts_tickBegin = 0, tts_tickEnd = 0, tts_oldTickBegin = 0, tts_oldTickEnd = 0,
      tickTransactions = (\<lambda>_. 0), tickTransactionOffsets = (\<lambda>_. 0),
      tickTransactionsLock = False,
      nextTickTransactionOffset = of_nat (FIRST_TICK_TRANSACTION_OFFSET cfg),
      storageSpaceCurrentEpoch = of_nat (tickTransactionsSizeCurrentEpoch cfg) \<rparr>"

definition pool0 :: "config \<Rightarrow> TxsPool" where
  "pool0 cfg = \<lparr> tickBegin = 0, tickEnd = 0, oldTickBegin = 0, oldTickEnd = 0,
      txsDigests = (\<lambda>_. 0), numSavedTxsPerTick = (\<lambda>_. 0),
      txsDigestsLock = False, numSavedLock = False,
      transactionsStorage = storage0 cfg \<rparr>"

text \<open>A pool whose current epoch is the tick range \<open>[1000, 1004)\<close>, and a transaction.\<close>

definition pool1 :: TxsPool where
  "pool1 = (pool0 cfg_small)\<lparr> tickBegin := 1000, tickEnd := 1004 \<rparr>"

definition tx1 :: Transaction where
  "tx1 = \<lparr> tx_tick = 1001, tx_valid = True, tx_bytes = [1, 2, 3] \<rparr>"

definition K12_length :: "u8 list \<Rightarrow> m256i" where
  "K12_length bs = of_nat (length bs)"

text \<open>
  A pool that keeps the ticks \<open>[998, 1000)\<close> of the previous epoch, with one transaction
  saved for tick 1001 and two for tick 999; and the same pool as a cold start.
\<close>

definition pool3 :: TxsPool where
  "pool3 = (pool0 cfg_small)\<lparr> oldTickBegin := 998, oldTickEnd := 1000,
     tickBegin := 1000, tickEnd := 1004,
     numSavedTxsPerTick := (\<lambda>i. if i = 1 then 1 else if i = 5 then 2 else 0) \<rparr>"

definition pool3_cold :: TxsPool where
  "pool3_cold = pool3\<lparr> oldTickBegin := 0, oldTickEnd := 0 \<rparr>"

text \<open>
  A tick storage before its first \<^verbatim>\<open>beginEpoch\<close> and one whose epoch starts at tick 1000,
  and a directory that holds a snapshot of epoch 5.
\<close>

definition tickStorage0 :: "config \<Rightarrow> TickStorage" where
  "tickStorage0 cfg = \<lparr> ts_tickBegin = 0, ts_tickData = (\<lambda>_. []), ts_ticks = (\<lambda>_. []),
      ts_transactionsStorage = storage0 cfg,
      metaData = invalidMetaData, lastCheckTransactionOffset = 0 \<rparr>"

definition fs_saved :: file_system where
  "fs_saved = (\<lambda>_. None)
     (SNAPSHOT_METADATA_FILE_NAME 5 \<mapsto> MetaFile \<lparr> md_epoch = 5, md_tickBegin = 1000,
         md_tickEnd = 1001, outTotalTransactionSize = 11, outNextTickTransactionOffset = 11 \<rparr>,
      SNAPSHOT_TICK_DATA_FILE_NAME 5 \<mapsto> TickDataFile [[1], [2]],
      SNAPSHOT_TICKS_FILE_NAME 5 \<mapsto> TicksFile [[3], [4]],
      SNAPSHOT_TICK_TRANSACTION_OFFSET_FILE_NAME 5 \<mapsto> OffsetsFile [0, 0, 0, 8, 0, 0],
      SNAPSHOT_TRANSACTIONS_FILE_NAME 5 \<mapsto> TransactionsFile [0, 0, 0, 0, 0, 0, 0, 0, 1, 2, 3])"

definition tickStorage1000 :: TickStorage where
  "tickStorage1000 = (tickStorage0 cfg_small)\<lparr> ts_tickBegin := 1000 \<rparr>"

text \<open>A configuration with a digest index of two slots, and three insertions.\<close>

definition cfg_tiny :: config where
  "cfg_tiny = \<lparr> MAX_NUMBER_OF_TICKS_PER_EPOCH = 1,
      TICKS_TO_KEEP_FROM_PRIOR_EPOCH = 1,
      NUMBER_OF_TRANSACTIONS_PER_TICK = 2,
      MAX_TRANSACTION_SIZE = 8,
      TRANSACTION_SPARSENESS = 1,
      FIRST_TICK_TRANSACTION_OFFSET = 8,
      NUMBER_OF_CONTRACT_EXECUTION_PROCESSORS = 2,
      NO_UEFI = True,
      EPOCH = 0 \<rparr>"

definition kvs3 :: "(m256i \<times> nat ptr) list" where
  "kvs3 = [(1, Ptr 100), (2, Ptr 200), (3, Ptr 300)]"





section \<open>Properties\<close>

subsection \<open>Spin locks\<close>

lemma ACQUIRE_free [simp]: "ACQUIRE False = Some True"
  by (subst ACQUIRE.simps) simp

lemma ACQUIRE_Some_free: "ACQUIRE lock = Some r \<Longrightarrow> \<not> lock"
  by (rule ACQUIRE.raw_induct [where P = "\<lambda>l r. \<not> l"]) (auto split: if_splits)

lemma ACQUIRE_held [simp]: "ACQUIRE True = None"
  using ACQUIRE_Some_free [of True] by (cases "ACQUIRE True") auto

subsection \<open>Contract locals stacks\<close>

lemma acquireSpin_range_aux:
  assumes "acquireSpin cfg locks g k i = Some r"
  shows "g \<le> i \<and> i < NUMBER_OF_CONTRACT_EXECUTION_PROCESSORS cfg
    \<longrightarrow> g \<le> r \<and> r < NUMBER_OF_CONTRACT_EXECUTION_PROCESSORS cfg"
proof (rule acquireSpin.raw_induct [where P = "\<lambda>cfg locks g k i r.
    g \<le> i \<and> i < NUMBER_OF_CONTRACT_EXECUTION_PROCESSORS cfg
    \<longrightarrow> g \<le> r \<and> r < NUMBER_OF_CONTRACT_EXECUTION_PROCESSORS cfg", OF _ assms])
  fix f cfg locks g k i r
  assume IH: "\<And>c l g k i y. f c l g k i = Some y \<Longrightarrow>
      g \<le> i \<and> i < NUMBER_OF_CONTRACT_EXECUTION_PROCESSORS c
      \<longrightarrow> g \<le> y \<and> y < NUMBER_OF_CONTRACT_EXECUTION_PROCESSORS c"
    and step: "(if locks k i
        then let i' = i + 1
             in Let (if i' = NUMBER_OF_CONTRACT_EXECUTION_PROCESSORS cfg then g else i')
                  (f cfg locks g (k + 1))
        else Some i) = Some r"
  show "g \<le> i \<and> i < NUMBER_OF_CONTRACT_EXECUTION_PROCESSORS cfg
    \<longrightarrow> g \<le> r \<and> r < NUMBER_OF_CONTRACT_EXECUTION_PROCESSORS cfg"
  proof (cases "locks k i")
    case False
    with step show ?thesis by simp
  next
    case True
    let ?n = "NUMBER_OF_CONTRACT_EXECUTION_PROCESSORS cfg"
    let ?i = "if i + 1 = ?n then g else i + 1"
    from True step have "f cfg locks g (k + 1) ?i = Some r"
      by (auto simp: Let_def split: if_splits)
    from IH [OF this] show ?thesis by (auto split: if_splits)
  qed
qed

lemma acquireSpin_range:
  "acquireSpin cfg locks g k i = Some r \<Longrightarrow> g \<le> i \<Longrightarrow>
   i < NUMBER_OF_CONTRACT_EXECUTION_PROCESSORS cfg \<Longrightarrow>
   g \<le> r \<and> r < NUMBER_OF_CONTRACT_EXECUTION_PROCESSORS cfg"
  using acquireSpin_range_aux by blast

lemma acquireSpin_free: "\<not> locks k i \<Longrightarrow> acquireSpin cfg locks g k i = Some i"
  by (subst acquireSpin.simps) simp

lemma acquireSpin_held:
  "locks k i \<Longrightarrow> acquireSpin cfg locks g k i =
     acquireSpin cfg locks g (k + 1)
       (if i + 1 = NUMBER_OF_CONTRACT_EXECUTION_PROCESSORS cfg then g else i + 1)"
  by (subst acquireSpin.simps) (simp add: Let_def)

lemma acquireContractLocalsStack_range:
  "stacksToIgnore < NUMBER_OF_CONTRACT_EXECUTION_PROCESSORS cfg \<Longrightarrow>
   acquireContractLocalsStack cfg locks stacksToIgnore = Some stackIdx \<Longrightarrow>
   stacksToIgnore \<le> stackIdx \<and> stackIdx < NUMBER_OF_CONTRACT_EXECUTION_PROCESSORS cfg"
  unfolding acquireContractLocalsStack_def
  using acquireSpin_range [of cfg locks stacksToIgnore 0 stacksToIgnore stackIdx] by simp

lemma acquireSpin_reaches:
  "i \<le> idx \<Longrightarrow> idx < NUMBER_OF_CONTRACT_EXECUTION_PROCESSORS cfg \<Longrightarrow>
   acquireSpin cfg (\<lambda>k j. j < idx) g k i = Some idx"
proof (induction "idx - i" arbitrary: i k)
  case 0
  then have "i = idx" by simp
  then show ?case by (simp add: acquireSpin_free)
next
  case (Suc d)
  then have lt: "i < idx" by simp
  then have n: "i + 1 \<noteq> NUMBER_OF_CONTRACT_EXECUTION_PROCESSORS cfg" using Suc.prems by simp
  have "acquireSpin cfg (\<lambda>k j. j < idx) g (k + 1) (i + 1) = Some idx"
    using Suc.hyps Suc.prems lt by (intro Suc.hyps(1)) simp_all
  then show ?case using lt n by (subst acquireSpin_held) simp_all
qed

text \<open>
  C9, as the claim states its second half: a reader can never acquire a high-index slot.
  With four stacks and stacks 1 and 2 held, the user function call acquires stack 3, the
  highest index there is.
\<close>

theorem reader_acquires_highest_slot:
  "userFunctionCall_acquire cfg_small (\<lambda>k i. i < 3) = Some 3
   \<and> NUMBER_OF_CONTRACT_EXECUTION_PROCESSORS cfg_small - 1 = 3"
  by (simp add: userFunctionCall_acquire_def stacksNotUsedToReserveThemForStateWriter_def
      acquireContractLocalsStack_def acquireSpin_held acquireSpin_free cfg_small_def)

text \<open>
  C9, amended. \<^verbatim>\<open>acquireContractLocalsStack\<close> returns only indices in
  \<open>[stacksToIgnore, NUMBER_OF_CONTRACT_EXECUTION_PROCESSORS)\<close>. A user function call
  passes \<open>stacksToIgnore = 1\<close>, so it acquires a slot in \<open>[1, N)\<close> and never slot 0: the slot
  kept back from readers is the lowest index, which a procedure call (\<open>stacksToIgnore = 0\<close>)
  tries first. Every index from 1 up to the highest, \<open>N - 1\<close>, is acquired by a reader when
  the stacks below it (from 1 on) are held.
\<close>

theorem acquireContractLocalsStack_reserves_slot_0:
  "(stacksToIgnore < NUMBER_OF_CONTRACT_EXECUTION_PROCESSORS cfg \<longrightarrow>
      acquireContractLocalsStack cfg locks stacksToIgnore = Some stackIdx \<longrightarrow>
      stacksToIgnore \<le> stackIdx \<and> stackIdx < NUMBER_OF_CONTRACT_EXECUTION_PROCESSORS cfg)
   \<and> (2 \<le> NUMBER_OF_CONTRACT_EXECUTION_PROCESSORS cfg \<longrightarrow>
      userFunctionCall_acquire cfg locks = Some readerIdx \<longrightarrow>
      1 \<le> readerIdx \<and> readerIdx < NUMBER_OF_CONTRACT_EXECUTION_PROCESSORS cfg \<and> readerIdx \<noteq> 0)
   \<and> (\<not> locks 0 0 \<longrightarrow> userProcedureCall_acquire cfg locks = Some 0)
   \<and> (1 \<le> idx \<and> idx < NUMBER_OF_CONTRACT_EXECUTION_PROCESSORS cfg \<longrightarrow>
      userFunctionCall_acquire cfg (\<lambda>k i. i < idx) = Some idx)"
  using acquireContractLocalsStack_range [of stacksToIgnore cfg locks stackIdx]
    acquireContractLocalsStack_range [of 1 cfg locks readerIdx]
    acquireSpin_reaches [of 1 idx cfg 1 0]
  by (auto simp: userFunctionCall_acquire_def stacksNotUsedToReserveThemForStateWriter_def
      userProcedureCall_acquire_def acquireContractLocalsStack_def acquireSpin_free)


theorem acquireContractLocalsStack_reserves_slot_0_witness:
  "(1::nat) < NUMBER_OF_CONTRACT_EXECUTION_PROCESSORS cfg_small
   \<and> acquireContractLocalsStack cfg_small (\<lambda>k i. i < 3) 1 = Some 3
   \<and> 2 \<le> NUMBER_OF_CONTRACT_EXECUTION_PROCESSORS cfg_small
   \<and> userFunctionCall_acquire cfg_small (\<lambda>k i. i < 3) = Some 3
   \<and> (3::nat) < NUMBER_OF_CONTRACT_EXECUTION_PROCESSORS cfg_small
   \<and> userProcedureCall_acquire cfg_small (\<lambda>k i. i = 1) = Some 0
   \<and> userFunctionCall_acquire cfg_small (\<lambda>k i. i < 1) = Some 1
   \<and> userFunctionCall_acquire cfg_small (\<lambda>k i. i < 2) = Some 2"
proof -
  have a: "acquireContractLocalsStack cfg_small (\<lambda>k i. i < 3) 1 = Some 3"
    by (simp add: acquireContractLocalsStack_def acquireSpin_held acquireSpin_free cfg_small_def)
  have b: "userFunctionCall_acquire cfg_small (\<lambda>k i. i < 3) = Some 3"
    using a by (simp add: userFunctionCall_acquire_def stacksNotUsedToReserveThemForStateWriter_def)
  have n: "NUMBER_OF_CONTRACT_EXECUTION_PROCESSORS cfg_small = 4" by (simp add: cfg_small_def)
  have c: "\<not> (\<lambda>k i::nat. i = 1) (0::nat) 0" by simp
  note t1 = acquireContractLocalsStack_reserves_slot_0
      [of 1 cfg_small "\<lambda>k i. i < 3" 3 3, THEN conjunct1, rule_format]
  note t3 = acquireContractLocalsStack_reserves_slot_0
      [of 1 cfg_small "\<lambda>k i. i = 1" 3 3, THEN conjunct2, THEN conjunct2, THEN conjunct1,
        rule_format, OF c]
  have r1: "userFunctionCall_acquire cfg_small (\<lambda>k i. i < 1) = Some 1"
    using acquireContractLocalsStack_reserves_slot_0
      [of 1 cfg_small "\<lambda>k i. i < 3" 3 3 1, THEN conjunct2, THEN conjunct2, THEN conjunct2]
    by (simp add: n)
  have r2: "userFunctionCall_acquire cfg_small (\<lambda>k i. i < 2) = Some 2"
    using acquireContractLocalsStack_reserves_slot_0
      [of 1 cfg_small "\<lambda>k i. i < 3" 3 3 2, THEN conjunct2, THEN conjunct2, THEN conjunct2]
    by (simp add: n)
  have "(3::nat) < NUMBER_OF_CONTRACT_EXECUTION_PROCESSORS cfg_small"
    using t1 [OF _ a] n by simp
  with a b n t3 r1 r2 show ?thesis by simp
qed

subsection \<open>TxsPool: locks\<close>

lemma tts_acquireLock_free:
  "\<not> tickTransactionsLock st \<Longrightarrow> tts_acquireLock st = Some (st\<lparr>tickTransactionsLock := True\<rparr>)"
  by (simp add: tts_acquireLock_def)

lemma acquireLock_free:
  "\<not> txsDigestsLock s \<Longrightarrow> \<not> tickTransactionsLock (transactionsStorage s) \<Longrightarrow>
   acquireLock s = Some (s\<lparr> txsDigestsLock := True,
      transactionsStorage := (transactionsStorage s)\<lparr>tickTransactionsLock := True\<rparr> \<rparr>)"
  by (simp add: acquireLock_def tts_acquireLock_free)


lemma tts_acquireLock_held:
  "tickTransactionsLock st \<Longrightarrow> tts_acquireLock st = None"
  by (simp add: tts_acquireLock_def)

lemma releaseLock_after_acquireLock:
  "\<not> txsDigestsLock s \<Longrightarrow> \<not> tickTransactionsLock (transactionsStorage s) \<Longrightarrow>
   (acquireLock s \<bind> releaseLock) = Some s"
  by (simp add: acquireLock_free releaseLock_def tts_releaseLock_def RELEASE_def)

text \<open>
  C8. In the second copy of the source \<^verbatim>\<open>releaseLock\<close> calls
  \<^verbatim>\<open>transactionsStorage.tickTransactions.acquireLock()\<close> instead of \<^verbatim>\<open>releaseLock()\<close>. From
  the state with both locks free, \<^verbatim>\<open>acquireLock\<close> returns with both locks held, and the
  following \<^verbatim>\<open>releaseLock\<close> never returns (it spins on the arena lock it holds itself).
  The copy in \<^verbatim>\<open>txs_pool.h\<close> releases both locks (\<open>releaseLock_after_acquireLock\<close>).
\<close>

theorem releaseLock_copy2_never_returns:
  "acquireLock (pool0 cfg_small) =
      Some ((pool0 cfg_small)\<lparr> txsDigestsLock := True,
         transactionsStorage := (storage0 cfg_small)\<lparr>tickTransactionsLock := True\<rparr> \<rparr>)
   \<and> (acquireLock (pool0 cfg_small) \<bind> releaseLock_copy2) = None"
  by (simp add: acquireLock_def tts_acquireLock_def releaseLock_copy2_def pool0_def storage0_def)

subsection \<open>TxsPool: admission\<close>

lemma u32_bound: "unat (x::u32) < 2^32"
  using unsigned_less [of x, where 'a = nat] by simp

lemma unat_ucast_32_64: "unat (ucast (x::u32) :: u64) = unat x"
proof -
  have "unat x < 2 ^ 64" using u32_bound [of x] by simp
  then show ?thesis by (simp add: unsigned_ucast_eq take_bit_nat_eq_self)
qed

lemma index_in_row:
  fixes ti c :: u32
  assumes "unat ti < m" "unat c < n" "m * n < 2 ^ 32"
  shows "unat (ti * of_nat n + c) = unat ti * n + unat c"
    and "unat (ti * of_nat n) = unat ti * n"
proof -
  have n: "n < 2 ^ 32" using assms by (cases m) (auto simp: algebra_simps)
  then have un: "unat (of_nat n :: u32) = n" by (simp add: unat_of_nat)
  have "unat ti * n + unat c < Suc (unat ti) * n" using assms by simp
  also have "\<dots> \<le> m * n" using assms(1) by (simp add: Suc_leI mult_le_mono1 del: mult_Suc)
  finally have lt: "unat ti * n + unat c < 2 ^ 32" using assms(3) by simp
  then have "unat ti * unat (of_nat n :: u32) < 2 ^ LENGTH(32)" by (simp add: un)
  then show m: "unat (ti * of_nat n) = unat ti * n"
    by (simp add: unat_mult_lem [THEN iffD1] un)
  have "unat (ti * of_nat n) + unat c < 2 ^ LENGTH(32)" using lt by (simp add: m)
  then show "unat (ti * of_nat n + c) = unat ti * n + unat c"
    by (simp add: unat_add_lem [THEN iffD1] m)
qed

lemma writeBytes_image:
  "writeBytes mem dst (take (unat (totalSize tx)) (tx_bytes tx)) =
     (\<lambda>i. if dst \<le> i \<and> i < dst + unat (totalSize tx) then tx_bytes tx ! (i - dst) else mem i)"
proof -
  have "unat (totalSize tx) \<le> length (tx_bytes tx)"
    by (simp add: totalSize_def unat_of_nat)
  then show ?thesis by (auto simp: writeBytes_def fun_eq_iff min_def)
qed

text \<open>
  C1. With the three locks free, \<^verbatim>\<open>update\<close> returns true exactly when the transaction is
  valid, its tick lies in \<open>[tickBegin, tickEnd)\<close>, the tick's count is below
  \<open>NUMBER_OF_TRANSACTIONS_PER_TICK\<close> and \<open>nextTickTransactionOffset + totalSize()\<close> is at
  most \<open>storageSpaceCurrentEpoch\<close>. On success the state is \<open>admitted\<close>: digest at
  \<open>[tickIndex][count]\<close>, the \<open>totalSize()\<close> bytes of the transaction in the arena from the
  old bump offset on and every other arena byte as before, that offset in the slot table
  at the same position, bump pointer advanced by \<open>totalSize()\<close>, count plus one. On
  failure the state is unchanged. The range hypotheses exclude wrap-around of the index and the bump
  arithmetic.
\<close>

theorem update_correct:
  assumes locks: "\<not> numSavedLock s" "\<not> txsDigestsLock s"
      "\<not> tickTransactionsLock (transactionsStorage s)"
    and cfg: "MAX_NUMBER_OF_TICKS_PER_EPOCH cfg * NUMBER_OF_TRANSACTIONS_PER_TICK cfg < 2 ^ 32"
    and range: "unat (tickEnd s) \<le> unat (tickBegin s) + MAX_NUMBER_OF_TICKS_PER_EPOCH cfg"
    and bump: "unat (nextTickTransactionOffset (transactionsStorage s)) + 2 ^ 32 \<le> 2 ^ 64"
  shows "update cfg K12 s tx =
           Some (accepts cfg s tx, if accepts cfg s tx then admitted cfg K12 s tx else s)"
proof (cases "checkValidity tx \<and> tickInCurrentEpochStorage s (tx_tick tx)")
  case False
  then show ?thesis
    by (auto simp: update_def accepts_def tickInCurrentEpochStorage_def)
next
  case True
  let ?ti = "tickToIndexCurrentEpoch s (tx_tick tx)"
  let ?st = "transactionsStorage s"
  let ?N = "NUMBER_OF_TRANSACTIONS_PER_TICK cfg"
  from True have inr: "tickBegin s \<le> tx_tick tx" "tx_tick tx < tickEnd s"
    by (simp_all add: tickInCurrentEpochStorage_def)
  have ti: "unat ?ti = unat (tx_tick tx) - unat (tickBegin s)"
    by (simp add: tickToIndexCurrentEpoch_def unat_sub inr)
  have ti_lt: "unat ?ti < MAX_NUMBER_OF_TICKS_PER_EPOCH cfg"
    using inr range by (simp add: ti word_less_nat_alt word_le_nat_alt)
  have N: "?N < 2 ^ 32" using cfg ti_lt
    by (cases "MAX_NUMBER_OF_TICKS_PER_EPOCH cfg") (auto simp: algebra_simps)
  have cnt: "(numSavedTxsPerTick s (unat ?ti) < of_nat ?N)
      = (unat (numSavedTxsPerTick s (unat ?ti)) < ?N)"
    using N by (simp add: word_less_nat_alt unat_of_nat)
  have sz: "unat (nextTickTransactionOffset ?st + ucast (totalSize tx))
      = unat (nextTickTransactionOffset ?st) + unat (totalSize tx)"
    using bump u32_bound [of "totalSize tx"]
    by (subst unat_add_lem [THEN iffD1]) (simp_all add: unat_ucast_32_64)
  have fit: "(nextTickTransactionOffset ?st + ucast (totalSize tx) \<le> storageSpaceCurrentEpoch ?st)
      = (unat (nextTickTransactionOffset ?st) + unat (totalSize tx)
           \<le> unat (storageSpaceCurrentEpoch ?st))"
    by (simp add: word_le_nat_alt sz)
  have acc: "accepts cfg s tx = (unat (numSavedTxsPerTick s (unat ?ti)) < ?N
      \<and> unat (nextTickTransactionOffset ?st) + unat (totalSize tx)
           \<le> unat (storageSpaceCurrentEpoch ?st))"
    using True inr by (simp add: accepts_def ti)
  show ?thesis
  proof (cases "accepts cfg s tx")
    case False
    with acc True locks show ?thesis
      by (auto simp: update_def Let_def acquireLock_free update_locked_def cnt fit
          releaseLock_def tts_releaseLock_def RELEASE_def)
  next
    case acc': True
    with acc have c: "unat (numSavedTxsPerTick s (unat ?ti)) < ?N" by simp
    note ix = index_in_row [OF ti_lt c cfg]
    have nx: "nextTickTransactionOffset ?st + ucast (totalSize tx)
        = of_nat (unat (nextTickTransactionOffset ?st) + unat (totalSize tx))"
      by (simp add: sz [symmetric])
    have c1: "numSavedTxsPerTick s (unat ?ti) + 1
        = of_nat (unat (numSavedTxsPerTick s (unat ?ti)) + 1)"
      by simp
    from acc acc' True locks show ?thesis
      apply (simp add: update_def Let_def acquireLock_free update_locked_def cnt fit
          releaseLock_def tts_releaseLock_def RELEASE_def)
      apply (simp add: admitted_def Let_def ix getByTickIndex_def nx ti [symmetric]
          writeBytes_image del: of_nat_add)
      apply (intro TxsPool.equality TickTransactionsStorage.equality; simp add: add.commute)
      done
  qed
qed

theorem update_correct_witness:
  "\<not> numSavedLock pool1 \<and> \<not> txsDigestsLock pool1
   \<and> \<not> tickTransactionsLock (transactionsStorage pool1)
   \<and> MAX_NUMBER_OF_TICKS_PER_EPOCH cfg_small * NUMBER_OF_TRANSACTIONS_PER_TICK cfg_small < 2 ^ 32
   \<and> unat (tickEnd pool1) \<le> unat (tickBegin pool1) + MAX_NUMBER_OF_TICKS_PER_EPOCH cfg_small
   \<and> unat (nextTickTransactionOffset (transactionsStorage pool1)) + 2 ^ 32 \<le> 2 ^ 64
   \<and> accepts cfg_small pool1 tx1
   \<and> update cfg_small K12_length pool1 tx1 = Some (True, admitted cfg_small K12_length pool1 tx1)
   \<and> numSavedTxsPerTick (admitted cfg_small K12_length pool1 tx1) 1 = 1
   \<and> nextTickTransactionOffset (transactionsStorage (admitted cfg_small K12_length pool1 tx1)) = 11
   \<and> map (tickTransactions (transactionsStorage
              (snd (the (update cfg_small K12_length pool1 tx1))))) [7, 8, 9, 10, 11]
         = [0, 1, 2, 3, 0]
   \<and> tickTransactionOffsets (transactionsStorage
              (snd (the (update cfg_small K12_length pool1 tx1)))) 3 = 8
   \<and> txsDigests (snd (the (update cfg_small K12_length pool1 tx1))) 3 = K12_length [1, 2, 3]
   \<and> numSavedTxsPerTick (snd (the (update cfg_small K12_length pool1 tx1))) 1 = 1
   \<and> nextTickTransactionOffset (transactionsStorage
              (snd (the (update cfg_small K12_length pool1 tx1)))) = 11"
proof -
  have h: "\<not> numSavedLock pool1" "\<not> txsDigestsLock pool1"
    "\<not> tickTransactionsLock (transactionsStorage pool1)"
    "MAX_NUMBER_OF_TICKS_PER_EPOCH cfg_small * NUMBER_OF_TRANSACTIONS_PER_TICK cfg_small < 2 ^ 32"
    "unat (tickEnd pool1) \<le> unat (tickBegin pool1) + MAX_NUMBER_OF_TICKS_PER_EPOCH cfg_small"
    "unat (nextTickTransactionOffset (transactionsStorage pool1)) + 2 ^ 32 \<le> 2 ^ 64"
    by (simp_all add: pool1_def pool0_def storage0_def cfg_small_def)
  have a: "accepts cfg_small pool1 tx1"
    by (simp add: accepts_def pool1_def pool0_def storage0_def cfg_small_def tx1_def
        checkValidity_def totalSize_def tickTransactionsSizeCurrentEpoch_def)
  have r: "numSavedTxsPerTick (admitted cfg_small K12_length pool1 tx1) 1 = 1"
    "nextTickTransactionOffset (transactionsStorage (admitted cfg_small K12_length pool1 tx1)) = 11"
    by (simp_all add: admitted_def Let_def pool1_def pool0_def storage0_def cfg_small_def tx1_def
        totalSize_def)
  note u = update_correct [OF h, of K12_length tx1]
  have e: "snd (the (update cfg_small K12_length pool1 tx1)) = admitted cfg_small K12_length pool1 tx1"
    using u a by simp
  have b: "map (tickTransactions (transactionsStorage (admitted cfg_small K12_length pool1 tx1)))
             [7, 8, 9, 10, 11] = [0, 1, 2, 3, 0]"
    "tickTransactionOffsets (transactionsStorage (admitted cfg_small K12_length pool1 tx1)) 3 = 8"
    "txsDigests (admitted cfg_small K12_length pool1 tx1) 3 = K12_length [1, 2, 3]"
    by (simp_all add: admitted_def Let_def pool1_def pool0_def storage0_def cfg_small_def tx1_def
        totalSize_def)
  from u a h r b show ?thesis by (simp add: e)
qed

subsection \<open>TxsPool: before the first epoch\<close>

lemma init_ranges:
  "init cfg True s0 = (True, s) \<Longrightarrow>
   tickBegin s = 0 \<and> tickEnd s = 0 \<and> oldTickBegin s = 0 \<and> oldTickEnd s = 0"
  by (auto simp: init_def)

text \<open>
  C10. In a state with \<open>tickBegin = tickEnd = oldTickBegin = oldTickEnd = 0\<close> (the state
  \<^verbatim>\<open>init\<close> leaves, \<open>init_ranges\<close>) no tick is in either range, \<^verbatim>\<open>update\<close> returns false and
  leaves the state as it is, and \<^verbatim>\<open>get\<close> and \<^verbatim>\<open>getDigest\<close> return \<^verbatim>\<open>nullptr\<close>, for every
  transaction, tick and index.
\<close>

theorem pool_before_first_epoch:
  assumes "tickBegin s = 0" "tickEnd s = 0" "oldTickBegin s = 0" "oldTickEnd s = 0"
  shows "\<not> tickInCurrentEpochStorage s tick \<and> \<not> tickInPreviousEpochStorage s tick
    \<and> update cfg K12 s tx = Some (False, s)
    \<and> get cfg s tick index = Some nullptr
    \<and> getDigest cfg s tick index = Some nullptr"
  using assms
  by (simp add: tickInCurrentEpochStorage_def tickInPreviousEpochStorage_def update_def
      get_def getDigest_def)

theorem pool_before_first_epoch_witness:
  "tickBegin (snd (init cfg_small True (pool0 cfg_small))) = 0
   \<and> tickEnd (snd (init cfg_small True (pool0 cfg_small))) = 0
   \<and> oldTickBegin (snd (init cfg_small True (pool0 cfg_small))) = 0
   \<and> oldTickEnd (snd (init cfg_small True (pool0 cfg_small))) = 0
   \<and> update cfg_small K12_length (snd (init cfg_small True (pool0 cfg_small))) tx1
       = Some (False, snd (init cfg_small True (pool0 cfg_small)))
   \<and> get cfg_small (snd (init cfg_small True (pool0 cfg_small))) 1001 0 = Some nullptr
   \<and> getDigest cfg_small (snd (init cfg_small True (pool0 cfg_small))) 1001 0 = Some nullptr"
proof -
  let ?s = "snd (init cfg_small True (pool0 cfg_small))"
  have h: "tickBegin ?s = 0" "tickEnd ?s = 0" "oldTickBegin ?s = 0" "oldTickEnd ?s = 0"
    by (simp_all add: init_def)
  from pool_before_first_epoch [OF h, of 1001 cfg_small K12_length tx1 0] h
  show ?thesis by simp
qed

subsection \<open>TxsPool: pending counts\<close>

lemma getNumberOfTickTxs_savedCount:
  "\<not> numSavedLock s \<Longrightarrow> getNumberOfTickTxs cfg s tick = Some (savedCount cfg s tick)"
  by (simp add: getNumberOfTickTxs_def savedCount_def)

lemma fold_add_sum:
  fixes f :: "nat \<Rightarrow> u32"
  shows "fold (\<lambda>t r. r + f t) [a..<b] r = r + (\<Sum>t = a..<b. f t)"
proof (induction b)
  case 0
  show ?case by simp
next
  case (Suc b)
  show ?case
  proof (cases "a \<le> b")
    case True
    then show ?thesis using Suc by (simp add: add.assoc)
  next
    case False
    then show ?thesis by simp
  qed
qed

lemma of_nat_tick:
  fixes b :: u32
  assumes "t < unat b"
  shows "unat (of_nat t :: u32) = t"
proof -
  have "t < 2 ^ 32" using assms u32_bound [of b] by simp
  then show ?thesis by (simp add: unat_of_nat)
qed

lemma sumCurrentEpoch_sumTicks:
  assumes "oldTickEnd s \<le> tickBegin s" "tickBegin s \<le> a"
  shows "sumCurrentEpoch s a (tickEnd s) r = r + sumTicks cfg s (unat a) (unat (tickEnd s))"
proof -
  have "\<And>t. t \<in> {unat a..<unat (tickEnd s)} \<Longrightarrow>
      numSavedTxsPerTick s (unat (tickToIndexCurrentEpoch s (of_nat t)))
        = savedCount cfg s (of_nat t)"
  proof -
    fix t assume t: "t \<in> {unat a..<unat (tickEnd s)}"
    then have u: "unat (of_nat t :: u32) = t" using of_nat_tick [of t "tickEnd s"] by simp
    have "tickBegin s \<le> of_nat t" "of_nat t < tickEnd s" "\<not> of_nat t < oldTickEnd s"
      using t assms by (simp_all add: word_le_nat_alt word_less_nat_alt u)
    then show "numSavedTxsPerTick s (unat (tickToIndexCurrentEpoch s (of_nat t)))
        = savedCount cfg s (of_nat t)"
      by (simp add: savedCount_def tickInPreviousEpochStorage_def tickInCurrentEpochStorage_def)
  qed
  then have "(\<Sum>t = unat a..<unat (tickEnd s).
        numSavedTxsPerTick s (unat (tickToIndexCurrentEpoch s (of_nat t))))
      = (\<Sum>t = unat a..<unat (tickEnd s). savedCount cfg s (of_nat t))"
    by (intro sum.cong refl)
  then show ?thesis
    by (simp add: sumCurrentEpoch_def fold_add_sum sumTicks_def)
qed

lemma sumPreviousEpoch_sumTicks:
  assumes "oldTickBegin s \<le> a"
  shows "sumPreviousEpoch cfg s a (oldTickEnd s) r
           = r + sumTicks cfg s (unat a) (unat (oldTickEnd s))"
proof -
  have "\<And>t. t \<in> {unat a..<unat (oldTickEnd s)} \<Longrightarrow>
      numSavedTxsPerTick s (unat (tickToIndexPreviousEpoch cfg s (of_nat t)))
        = savedCount cfg s (of_nat t)"
  proof -
    fix t assume t: "t \<in> {unat a..<unat (oldTickEnd s)}"
    then have u: "unat (of_nat t :: u32) = t" using of_nat_tick [of t "oldTickEnd s"] by simp
    have "oldTickBegin s \<le> of_nat t" "of_nat t < oldTickEnd s"
      using t assms by (simp_all add: word_le_nat_alt word_less_nat_alt u)
    then show "numSavedTxsPerTick s (unat (tickToIndexPreviousEpoch cfg s (of_nat t)))
        = savedCount cfg s (of_nat t)"
      by (simp add: savedCount_def tickInPreviousEpochStorage_def)
  qed
  then have "(\<Sum>t = unat a..<unat (oldTickEnd s).
        numSavedTxsPerTick s (unat (tickToIndexPreviousEpoch cfg s (of_nat t))))
      = (\<Sum>t = unat a..<unat (oldTickEnd s). savedCount cfg s (of_nat t))"
    by (intro sum.cong refl)
  then show ?thesis
    by (simp add: sumPreviousEpoch_def fold_add_sum sumTicks_def)
qed

lemma sumTicks_empty [simp]: "b \<le> a \<Longrightarrow> sumTicks cfg s a b = 0"
  by (simp add: sumTicks_def)

lemma unat_succ_less:
  fixes t e :: u32
  assumes "t < e"
  shows "unat (t + 1) = unat t + 1" and "t < t + 1" and "t + 1 \<le> e"
    and "unat (1 + t) = Suc (unat t)"
proof -
  have "unat t < unat e" using assms by (simp add: word_less_nat_alt)
  then have "unat t + unat (1::u32) < 2 ^ LENGTH(32)" using u32_bound [of e] by simp
  then show 1: "unat (t + 1) = unat t + 1" by (simp add: unat_add_lem [THEN iffD1])
  then show "t < t + 1" by (simp add: word_less_nat_alt)
  show "t + 1 \<le> e" using assms by (rule inc_le)
  show "unat (1 + t) = Suc (unat t)" using 1 by (simp add: add.commute)
qed

text \<open>
  \<^verbatim>\<open>getNumberOfPendingTxs\<close> of \<^verbatim>\<open>txs_pool.h\<close>. With the lock free and the tick ranges in
  order (previous epoch before current epoch, and a previous-epoch range that starts at 0
  is empty), \<^verbatim>\<open>getNumberOfPendingTxs(t)\<close> is the sum of the counts of the stored ticks after \<open>t\<close>: over \<open>[t+1, oldTickEnd)\<close> and
  \<open>[tickBegin, tickEnd)\<close> for \<open>t\<close> in the previous-epoch range, over \<open>(t, tickEnd)\<close> for \<open>t\<close> in
  the current-epoch range, over both ranges for \<open>t\<close> before both (also in a cold start,
  where the previous-epoch range is \<open>[0, 0)\<close> and \<open>t < tickBegin\<close>), and 0 for
  \<open>t \<ge> tickEnd\<close>. Sums are in \<^verbatim>\<open>unsigned int\<close> arithmetic, as the result is.
\<close>

theorem getNumberOfPendingTxs_correct:
  assumes lock: "\<not> numSavedLock s"
    and ranges: "oldTickBegin s \<le> oldTickEnd s" "oldTickEnd s \<le> tickBegin s"
      "tickBegin s \<le> tickEnd s"
    and shape: "oldTickBegin s = 0 \<longrightarrow> oldTickEnd s = 0"
  shows "(tickInPreviousEpochStorage s t \<longrightarrow>
           getNumberOfPendingTxs cfg s t =
             Some (sumTicks cfg s (unat t + 1) (unat (oldTickEnd s))
                   + sumTicks cfg s (unat (tickBegin s)) (unat (tickEnd s))))
       \<and> (tickInCurrentEpochStorage s t \<longrightarrow>
           getNumberOfPendingTxs cfg s t =
             Some (sumTicks cfg s (unat t + 1) (unat (tickEnd s))))
       \<and> (t < oldTickBegin s \<and> t < tickBegin s
            \<or> oldTickBegin s = 0 \<and> oldTickEnd s = 0 \<and> t < tickBegin s \<longrightarrow>
           getNumberOfPendingTxs cfg s t =
             Some (sumTicks cfg s (unat (oldTickBegin s)) (unat (oldTickEnd s))
                   + sumTicks cfg s (unat (tickBegin s)) (unat (tickEnd s))))
       \<and> (tickEnd s \<le> t \<longrightarrow> getNumberOfPendingTxs cfg s t = Some 0)"
proof (intro conjI impI)
  assume p: "tickInPreviousEpochStorage s t"
  then have t: "oldTickBegin s \<le> t" "t < oldTickEnd s"
    by (simp_all add: tickInPreviousEpochStorage_def)
  have nz: "oldTickBegin s \<noteq> 0" using shape t by auto
  have "\<not> t < oldTickBegin s" using t by simp
  moreover note s = unat_succ_less [OF t(2)]
  have "oldTickBegin s \<le> t + 1" using t(1) s(2) by simp
  ultimately show "getNumberOfPendingTxs cfg s t =
             Some (sumTicks cfg s (unat t + 1) (unat (oldTickEnd s))
                   + sumTicks cfg s (unat (tickBegin s)) (unat (tickEnd s)))"
    using lock p nz ranges
    by (simp add: getNumberOfPendingTxs_def sumCurrentEpoch_sumTicks [where cfg = cfg]
        sumPreviousEpoch_sumTicks s(1) s(4) add.commute)
next
  assume c: "tickInCurrentEpochStorage s t"
  then have t: "tickBegin s \<le> t" "t < tickEnd s"
    by (simp_all add: tickInCurrentEpochStorage_def)
  note s = unat_succ_less [OF t(2)]
  have a: "\<not> t < oldTickBegin s" "\<not> t < tickBegin s" "\<not> tickInPreviousEpochStorage s t"
    using t ranges by (auto simp: tickInPreviousEpochStorage_def)
  have "tickBegin s \<le> t + 1" using t(1) s(2) by simp
  then show "getNumberOfPendingTxs cfg s t =
             Some (sumTicks cfg s (unat t + 1) (unat (tickEnd s)))"
    using lock c a ranges
    by (simp add: getNumberOfPendingTxs_def sumCurrentEpoch_sumTicks [where cfg = cfg]
        sumPreviousEpoch_sumTicks s(1) s(4))
next
  assume b: "t < oldTickBegin s \<and> t < tickBegin s
            \<or> oldTickBegin s = 0 \<and> oldTickEnd s = 0 \<and> t < tickBegin s"
  then have "t < oldTickBegin s \<or> oldTickBegin s = 0 \<and> t < tickBegin s" by auto
  then show "getNumberOfPendingTxs cfg s t =
             Some (sumTicks cfg s (unat (oldTickBegin s)) (unat (oldTickEnd s))
                   + sumTicks cfg s (unat (tickBegin s)) (unat (tickEnd s)))"
    using lock ranges
    by (simp add: getNumberOfPendingTxs_def sumCurrentEpoch_sumTicks [where cfg = cfg]
        sumPreviousEpoch_sumTicks add.commute)
next
  assume e: "tickEnd s \<le> t"
  have a: "\<not> t < oldTickBegin s" "\<not> t < tickBegin s" "\<not> tickInPreviousEpochStorage s t"
    "\<not> tickInCurrentEpochStorage s t"
    using e ranges by (auto simp: tickInPreviousEpochStorage_def tickInCurrentEpochStorage_def)
  show "getNumberOfPendingTxs cfg s t = Some 0"
    using lock a ranges
    by (simp add: getNumberOfPendingTxs_def sumCurrentEpoch_def sumPreviousEpoch_def)
qed

lemma sum_interval_Suc:
  fixes f :: "nat \<Rightarrow> u32"
  shows "a < b \<Longrightarrow> (\<Sum>t = a..<b. f t) = f a + (\<Sum>t = Suc a..<b. f t)"
  by (simp add: sum.atLeast_Suc_lessThan)

lemmas pool3_defs = pool3_def pool3_cold_def pool0_def cfg_small_def
  tickInPreviousEpochStorage_def tickInCurrentEpochStorage_def
  tickToIndexPreviousEpoch_def tickToIndexCurrentEpoch_def

theorem getNumberOfPendingTxs_correct_witness:
  "\<not> numSavedLock pool3 \<and> oldTickBegin pool3 \<le> oldTickEnd pool3
   \<and> oldTickEnd pool3 \<le> tickBegin pool3 \<and> tickBegin pool3 \<le> tickEnd pool3
   \<and> oldTickBegin pool3 \<noteq> 0
   \<and> tickInPreviousEpochStorage pool3 998
   \<and> getNumberOfPendingTxs cfg_small pool3 998 = Some 3
   \<and> tickInCurrentEpochStorage pool3 1000
   \<and> getNumberOfPendingTxs cfg_small pool3 1000 = Some 1
   \<and> getNumberOfPendingTxs cfg_small pool3 997 = Some 3
   \<and> getNumberOfPendingTxs cfg_small pool3 1004 = Some 0
   \<and> getNumberOfPendingTxs cfg_small pool3_cold 999 = Some 1"
proof -
  have h: "\<not> numSavedLock pool3" "oldTickBegin pool3 \<le> oldTickEnd pool3"
    "oldTickEnd pool3 \<le> tickBegin pool3" "tickBegin pool3 \<le> tickEnd pool3"
    "oldTickBegin pool3 = 0 \<longrightarrow> oldTickEnd pool3 = 0"
    by (simp_all add: pool3_defs)
  have hc: "\<not> numSavedLock pool3_cold" "oldTickBegin pool3_cold \<le> oldTickEnd pool3_cold"
    "oldTickEnd pool3_cold \<le> tickBegin pool3_cold" "tickBegin pool3_cold \<le> tickEnd pool3_cold"
    "oldTickBegin pool3_cold = 0 \<longrightarrow> oldTickEnd pool3_cold = 0"
    by (simp_all add: pool3_defs)
  have c: "tickInPreviousEpochStorage pool3 998" "tickInCurrentEpochStorage pool3 1000"
    "997 < oldTickBegin pool3 \<and> 997 < tickBegin pool3" "tickEnd pool3 \<le> 1004"
    "oldTickBegin pool3_cold = 0 \<and> oldTickEnd pool3_cold = 0 \<and> 999 < tickBegin pool3_cold"
    by (simp_all add: pool3_defs)
  have v: "sumTicks cfg_small pool3 (unat (998::u32) + 1) (unat (oldTickEnd pool3)) = 2"
    "sumTicks cfg_small pool3 (unat (tickBegin pool3)) (unat (tickEnd pool3)) = 1"
    "sumTicks cfg_small pool3 (unat (1000::u32) + 1) (unat (tickEnd pool3)) = 1"
    "sumTicks cfg_small pool3 (unat (oldTickBegin pool3)) (unat (oldTickEnd pool3)) = 2"
    "sumTicks cfg_small pool3_cold (unat (oldTickBegin pool3_cold)) (unat (oldTickEnd pool3_cold)) = 0"
    "sumTicks cfg_small pool3_cold (unat (tickBegin pool3_cold)) (unat (tickEnd pool3_cold)) = 1"
    by (simp_all add: sumTicks_def sum_interval_Suc savedCount_def pool3_defs)
  note t = getNumberOfPendingTxs_correct [OF h, of _ cfg_small]
  note tc = getNumberOfPendingTxs_correct [OF hc, of 999 cfg_small]
  have "getNumberOfPendingTxs cfg_small pool3 998 = Some 3"
    using t [of 998] c(1) v by simp
  moreover have "getNumberOfPendingTxs cfg_small pool3 1000 = Some 1"
    using t [of 1000] c(2) v by simp
  moreover have "getNumberOfPendingTxs cfg_small pool3 997 = Some 3"
    using t [of 997] c(3) v by simp
  moreover have "getNumberOfPendingTxs cfg_small pool3 1004 = Some 0"
    using t [of 1004] c(4) by simp
  moreover have "getNumberOfPendingTxs cfg_small pool3_cold 999 = Some 1"
    using tc c(5) v by simp
  moreover have "oldTickBegin pool3 \<noteq> 0" by (simp add: pool3_defs)
  ultimately show ?thesis using h c by simp
qed


subsection \<open>Tick ranges across epochs\<close>

lemma beginEpoch_tickBegin [simp]: "tickBegin (beginEpoch cfg s n) = n"
  by (simp add: beginEpoch_def Let_def split_beta)
lemma beginEpoch_tickEnd [simp]:
  "tickEnd (beginEpoch cfg s n) = n + of_nat (MAX_NUMBER_OF_TICKS_PER_EPOCH cfg)"
  by (simp add: beginEpoch_def Let_def split_beta)
lemma beginEpoch_oldTickEnd:
  "oldTickEnd (beginEpoch cfg s n) =
     (if tickBegin s \<noteq> 0 \<and> tickInCurrentEpochStorage s n \<and> tickBegin s < n then n else 0)"
  by (auto simp: beginEpoch_def Let_def split_beta tickInCurrentEpochStorage_def)
lemma beginEpoch_oldTickBegin:
  "oldTickBegin (beginEpoch cfg s n) =
     (if tickBegin s \<noteq> 0 \<and> tickInCurrentEpochStorage s n \<and> tickBegin s < n
      then (if n - of_nat (TICKS_TO_KEEP_FROM_PRIOR_EPOCH cfg) < tickBegin s then tickBegin s
            else n - of_nat (TICKS_TO_KEEP_FROM_PRIOR_EPOCH cfg))
      else 0)"
  by (auto simp: beginEpoch_def Let_def split_beta tickInCurrentEpochStorage_def)

lemma tts_beginEpoch_ranges:
  "tts_tickBegin (tts_beginEpoch cfg s n) = n"
  "tts_tickEnd (tts_beginEpoch cfg s n) = n + of_nat (MAX_NUMBER_OF_TICKS_PER_EPOCH cfg)"
  "tts_oldTickEnd (tts_beginEpoch cfg s n) =
     (if tts_tickBegin s \<noteq> 0 \<and> tts_tickInCurrentEpochStorage s n \<and> tts_tickBegin s < n then n else 0)"
  "tts_oldTickBegin (tts_beginEpoch cfg s n) =
     (if tts_tickBegin s \<noteq> 0 \<and> tts_tickInCurrentEpochStorage s n \<and> tts_tickBegin s < n
      then (if n - of_nat (TICKS_TO_KEEP_FROM_PRIOR_EPOCH cfg) < tts_tickBegin s then tts_tickBegin s
            else n - of_nat (TICKS_TO_KEEP_FROM_PRIOR_EPOCH cfg))
      else 0)"
  by (auto simp: tts_beginEpoch_def Let_def)

lemma beginEpoch_storage_ranges:
  "tts_tickBegin (transactionsStorage (beginEpoch cfg s n))
     = tts_tickBegin (tts_beginEpoch cfg (transactionsStorage s) n)"
  "tts_tickEnd (transactionsStorage (beginEpoch cfg s n))
     = tts_tickEnd (tts_beginEpoch cfg (transactionsStorage s) n)"
  "tts_oldTickBegin (transactionsStorage (beginEpoch cfg s n))
     = tts_oldTickBegin (tts_beginEpoch cfg (transactionsStorage s) n)"
  "tts_oldTickEnd (transactionsStorage (beginEpoch cfg s n))
     = tts_oldTickEnd (tts_beginEpoch cfg (transactionsStorage s) n)"
  by (simp_all add: beginEpoch_def Let_def split_beta)

text \<open>
  C5. \<^verbatim>\<open>init()\<close>, \<^verbatim>\<open>beginEpoch(50)\<close>, \<^verbatim>\<open>beginEpoch(60)\<close> with
  \<open>TICKS_TO_KEEP_FROM_PRIOR_EPOCH = 100\<close>: the second call is a seamless transition, and
  \<open>newInitialTick - TICKS_TO_KEEP_FROM_PRIOR_EPOCH\<close> wraps around in \<^verbatim>\<open>unsigned int\<close> to
  \<open>2^32 - 40\<close>, which is not below \<open>tickBegin\<close>, so it is not clamped: the pool and its
  storage end with \<open>oldTickBegin = 4294967256 > oldTickEnd = 60\<close>, and the invariant
  \<open>oldTickBegin \<le> oldTickEnd\<close> is broken. After the first call it holds.
\<close>

theorem beginEpoch_breaks_tick_ranges:
  "oldTickBegin (beginEpoch cfg_keep100 (beginEpoch cfg_keep100
       (snd (init cfg_keep100 True (pool0 cfg_keep100))) 50) 60) = 4294967256
   \<and> oldTickEnd (beginEpoch cfg_keep100 (beginEpoch cfg_keep100
       (snd (init cfg_keep100 True (pool0 cfg_keep100))) 50) 60) = 60
   \<and> \<not> tickRangeInvariant cfg_keep100 (beginEpoch cfg_keep100 (beginEpoch cfg_keep100
       (snd (init cfg_keep100 True (pool0 cfg_keep100))) 50) 60)
   \<and> tickRangeInvariant cfg_keep100 (beginEpoch cfg_keep100
       (snd (init cfg_keep100 True (pool0 cfg_keep100))) 50)
   \<and> tts_oldTickBegin (transactionsStorage (beginEpoch cfg_keep100 (beginEpoch cfg_keep100
       (snd (init cfg_keep100 True (pool0 cfg_keep100))) 50) 60)) = 4294967256
   \<and> \<not> tts_tickRangeInvariant cfg_keep100 (transactionsStorage (beginEpoch cfg_keep100
       (beginEpoch cfg_keep100 (snd (init cfg_keep100 True (pool0 cfg_keep100))) 50) 60))"
  by (simp add: tickRangeInvariant_def beginEpoch_oldTickEnd beginEpoch_oldTickBegin
      tts_tickRangeInvariant_def beginEpoch_storage_ranges tts_beginEpoch_ranges
      tickInCurrentEpochStorage_def tts_tickInCurrentEpochStorage_def
      cfg_keep100_def init_def tts_init_def)

text \<open>
  Without the two wrap-arounds (\<open>newInitialTick \<ge> TICKS_TO_KEEP_FROM_PRIOR_EPOCH\<close> and
  \<open>newInitialTick + MAX_NUMBER_OF_TICKS_PER_EPOCH < 2^32\<close>) every \<^verbatim>\<open>beginEpoch\<close> establishes
  the invariants, from any state.
\<close>

lemma beginEpoch_ranges_ok:
  assumes "TICKS_TO_KEEP_FROM_PRIOR_EPOCH cfg \<le> unat n"
    and "unat n + MAX_NUMBER_OF_TICKS_PER_EPOCH cfg < 2 ^ 32"
  shows "tickRangeInvariant cfg (beginEpoch cfg s n)"
proof -
  let ?K = "TICKS_TO_KEEP_FROM_PRIOR_EPOCH cfg"
  let ?M = "MAX_NUMBER_OF_TICKS_PER_EPOCH cfg"
  have K: "unat (of_nat ?K :: u32) = ?K"
    using assms(1) u32_bound [of n] by (simp add: unat_of_nat)
  have M: "unat (of_nat ?M :: u32) = ?M"
    using assms(2) by (simp add: unat_of_nat)
  have sub: "unat (n - of_nat ?K) = unat n - ?K"
    using assms(1) K by (simp add: unat_sub word_le_nat_alt)
  have add: "unat (n + of_nat ?M) = unat n + ?M"
    using assms(2) M by (simp add: unat_add_lem [THEN iffD1])
  show ?thesis
    by (auto simp: tickRangeInvariant_def beginEpoch_oldTickEnd beginEpoch_oldTickBegin
        word_le_nat_alt word_less_nat_alt sub add)
qed


lemma tts_beginEpoch_ranges_ok:
  assumes "TICKS_TO_KEEP_FROM_PRIOR_EPOCH cfg \<le> unat n"
    and "unat n + MAX_NUMBER_OF_TICKS_PER_EPOCH cfg < 2 ^ 32"
  shows "tts_tickRangeInvariant cfg (tts_beginEpoch cfg s n)"
proof -
  let ?K = "TICKS_TO_KEEP_FROM_PRIOR_EPOCH cfg"
  let ?M = "MAX_NUMBER_OF_TICKS_PER_EPOCH cfg"
  have K: "unat (of_nat ?K :: u32) = ?K"
    using assms(1) u32_bound [of n] by (simp add: unat_of_nat)
  have M: "unat (of_nat ?M :: u32) = ?M"
    using assms(2) by (simp add: unat_of_nat)
  have sub: "unat (n - of_nat ?K) = unat n - ?K"
    using assms(1) K by (simp add: unat_sub word_le_nat_alt)
  have add: "unat (n + of_nat ?M) = unat n + ?M"
    using assms(2) M by (simp add: unat_add_lem [THEN iffD1])
  show ?thesis
    by (auto simp: tts_tickRangeInvariant_def tts_beginEpoch_ranges
        word_le_nat_alt word_less_nat_alt sub add)
qed

subsection \<open>TickStorage: invalidated snapshots\<close>

text \<open>
  C7. \<^verbatim>\<open>saveInvalidateData\<close> writes the all-zero record, but a later \<^verbatim>\<open>tryLoadFromFile\<close> does
  not always refuse it. In a build with \<open>NO_UEFI\<close> and with the in-memory \<open>tickBegin = 0\<close>
  the all-zero record passes \<^verbatim>\<open>checkMetaData\<close>: the load goes on with \<open>nTick = 1\<close>, reads the
  files of the earlier snapshot, returns 0 and leaves \<open>nextTickTransactionOffset = 0\<close>, below
  \<open>FIRST_TICK_TRANSACTION_OFFSET\<close>. The same load from the directory as it was before the
  invalidation is refused with code 2: here the invalidation makes a refused snapshot
  loadable.
\<close>

theorem invalidated_snapshot_loaded_at_tickBegin_0:
  "fst (saveInvalidateData True fs_saved 5) = True
   \<and> NO_UEFI cfg_small
   \<and> checkMetaData cfg_small
         (snd (loadMetaData (snd (saveInvalidateData True fs_saved 5)) 5 (tickStorage0 cfg_small)))
   \<and> fst (tryLoadFromFile cfg_small (snd (saveInvalidateData True fs_saved 5))
            (tickStorage0 cfg_small) 5) = 0
   \<and> ts_tickData (snd (tryLoadFromFile cfg_small (snd (saveInvalidateData True fs_saved 5))
            (tickStorage0 cfg_small) 5)) 0 = [1]
   \<and> nextTickTransactionOffset (ts_transactionsStorage (tickStorage0 cfg_small)) = 8
   \<and> nextTickTransactionOffset (ts_transactionsStorage
         (snd (tryLoadFromFile cfg_small (snd (saveInvalidateData True fs_saved 5))
            (tickStorage0 cfg_small) 5))) = 0
   \<and> FIRST_TICK_TRANSACTION_OFFSET cfg_small = 8
   \<and> snd (saveInvalidateData True fs_saved 5) (SNAPSHOT_METADATA_FILE_NAME 5)
         = Some (MetaFile invalidMetaData)
   \<and> fst (tryLoadFromFile cfg_small fs_saved (tickStorage0 cfg_small) 5) = 2"
  by (simp add: saveInvalidateData_def saveLargeFile_def fs_saved_def tryLoadFromFile_def
      loadMetaData_def checkMetaData_def tickStorage0_def invalidMetaData_def cfg_small_def
      loadTickData_def loadTicks_def loadTickTransactionOffsets_def loadTransactions_def
      storage0_def writeBytes_def Let_def)

text \<open>
  Where the invalidation works. When \<^verbatim>\<open>saveInvalidateData(epoch)\<close> has written its record,
  the metadata file of that epoch holds the all-zero record; and when the in-memory \<open>tickBegin\<close> is not 0 (or
  the build is a firmware build with \<open>EPOCH \<noteq> 0\<close>), \<^verbatim>\<open>tryLoadFromFile\<close> for that epoch fails
  \<^verbatim>\<open>checkMetaData\<close>, returns 2, reinitializes the metadata from \<open>tickBegin\<close> and the epoch,
  and changes nothing else: no tick data, ticks, offsets or transactions are loaded.
\<close>

theorem invalidated_snapshot_not_loaded:
  assumes saved: "saveInvalidateData written fs epoch = (True, fs')"
    and nonzero: "ts_tickBegin s \<noteq> 0 \<or> \<not> NO_UEFI cfg \<and> (of_nat (EPOCH cfg) :: u32) \<noteq> 0"
  shows "fs' (SNAPSHOT_METADATA_FILE_NAME (ucast epoch)) = Some (MetaFile invalidMetaData)
    \<and> \<not> checkMetaData cfg (snd (loadMetaData fs' (ucast epoch) s))
    \<and> tryLoadFromFile cfg fs' s (ucast epoch) =
        (2, s\<lparr> metaData := invalidMetaData\<lparr> md_tickBegin := ts_tickBegin s,
                                               md_tickEnd := ts_tickBegin s,
                                               md_epoch := scast (ucast epoch :: 16 word) \<rparr>,
                lastCheckTransactionOffset := ucast (ts_tickBegin s) \<rparr>)"
proof -
  from saved have fs': "fs' = fs(SNAPSHOT_METADATA_FILE_NAME (ucast epoch) \<mapsto> MetaFile invalidMetaData)"
    by (auto simp: saveInvalidateData_def saveLargeFile_def invalidMetaData_def Let_def
        split: if_splits)
  have l: "loadMetaData fs' (ucast epoch) s = (True, s\<lparr>metaData := invalidMetaData\<rparr>)"
    by (simp add: loadMetaData_def fs')
  have c: "\<not> checkMetaData cfg (s\<lparr>metaData := invalidMetaData\<rparr>)"
    using nonzero by (auto simp: checkMetaData_def invalidMetaData_def)
  show ?thesis
    using c by (simp add: tryLoadFromFile_def l initMetaData_def) (simp add: fs')
qed

theorem invalidated_snapshot_not_loaded_witness:
  "saveInvalidateData True fs_saved 5 = (True, snd (saveInvalidateData True fs_saved 5))
   \<and> ts_tickBegin tickStorage1000 \<noteq> 0
   \<and> fst (tryLoadFromFile cfg_small (snd (saveInvalidateData True fs_saved 5))
            tickStorage1000 5) = 2
   \<and> ts_tickData (snd (tryLoadFromFile cfg_small (snd (saveInvalidateData True fs_saved 5))
            tickStorage1000 5)) = ts_tickData tickStorage1000
   \<and> ts_transactionsStorage (snd (tryLoadFromFile cfg_small
            (snd (saveInvalidateData True fs_saved 5)) tickStorage1000 5))
       = ts_transactionsStorage tickStorage1000"
proof -
  have a: "saveInvalidateData True fs_saved 5 = (True, snd (saveInvalidateData True fs_saved 5))"
    by (simp add: saveInvalidateData_def saveLargeFile_def)
  have b: "ts_tickBegin tickStorage1000 \<noteq> 0
      \<or> \<not> NO_UEFI cfg_small \<and> (of_nat (EPOCH cfg_small) :: u32) \<noteq> 0"
    by (simp add: tickStorage1000_def tickStorage0_def)
  have c: "(ucast (5::u32) :: 16 word) = 5" by simp
  from invalidated_snapshot_not_loaded [OF a b] a b show ?thesis
    by (simp add: c tickStorage1000_def tickStorage0_def)
qed

subsection \<open>Digest index: slots of a probe sequence\<close>

lemma next_slot: "Suc ((h + k) mod cap) mod cap = (h + Suc k) mod cap"
  by (simp add: mod_Suc_eq)

lemma slot_ne_orig:
  assumes "h < cap" "0 < x" "x < cap"
  shows "(h + x) mod cap \<noteq> (h::nat)"
proof (cases "h + x < cap")
  case True
  then show ?thesis using assms by simp
next
  case False
  then have "(h + x) mod cap = h + x - cap"
    using assms by (simp add: le_mod_geq)
  then show ?thesis using assms False by simp
qed

lemma slot_wrap: "h < cap \<Longrightarrow> (h + cap) mod cap = (h::nat)"
  by simp

lemma slot_inj:
  assumes "h < cap" "k < cap" "k' < cap" "(h + k) mod cap = (h + k') mod (cap::nat)"
  shows "k = k'"
proof -
  have *: "\<And>a b. a < cap \<Longrightarrow> b < cap \<Longrightarrow> a \<le> b \<Longrightarrow> (h + a) mod cap = (h + b) mod cap \<Longrightarrow> a = b"
  proof -
    fix a b assume ab: "a < cap" "b < cap" "a \<le> b" "(h + a) mod cap = (h + b) mod cap"
    have "h + a + (b - a) = h + b" using ab by simp
    then have "((h + a) mod cap + (b - a)) mod cap = (h + b) mod cap"
      by (metis mod_add_left_eq)
    then have e: "((h + a) mod cap + (b - a)) mod cap = (h + a) mod cap"
      using ab by simp
    have "(h + a) mod cap < cap" using assms(1) by simp
    from slot_ne_orig [OF this, of "b - a"] e have "\<not> (0 < b - a \<and> b - a < cap)"
      by blast
    then show "a = b" using ab by auto
  qed
  show ?thesis
  proof (cases "k \<le> k'")
    case True
    then show ?thesis using * [of k k'] assms by simp
  next
    case False
    then show ?thesis using * [of k' k] assms by simp
  qed
qed

lemma slot_surj:
  assumes "h < cap" "i < (cap::nat)"
  shows "\<exists>k<cap. (h + k) mod cap = i"
proof (cases "h \<le> i")
  case True
  then have "(h + (i - h)) mod cap = i" using assms by simp
  moreover have "i - h < cap" using assms by simp
  ultimately show ?thesis by blast
next
  case False
  then have "(h + (i + cap - h)) mod cap = i" using assms by simp
  moreover have "i + cap - h < cap" using assms False by simp
  ultimately show ?thesis by blast
qed

subsection \<open>Digest index: the probe loops\<close>

lemma insertProbe_free:
  "\<not> occupied tbl i \<Longrightarrow> insertProbe cap tbl h i = Some (Some i)"
  by (subst insertProbe.simps) (simp add: occupied_def isZero_def)

lemma insertProbe_step:
  "occupied tbl i \<Longrightarrow> insertProbe cap tbl h i =
     (if Suc i mod cap = h then Some None else insertProbe cap tbl h (Suc i mod cap))"
  by (subst insertProbe.simps) (simp add: occupied_def isZero_def Let_def)

lemma insertProbe_skip:
  assumes "h < cap"
  shows "j + n < cap \<Longrightarrow> (\<And>k. j \<le> k \<Longrightarrow> k < j + n \<Longrightarrow> occupied tbl ((h + k) mod cap)) \<Longrightarrow>
    insertProbe cap tbl h ((h + j) mod cap) = insertProbe cap tbl h ((h + (j + n)) mod cap)"
proof (induction n arbitrary: j)
  case 0
  show ?case by simp
next
  case (Suc n)
  have occ: "occupied tbl ((h + j) mod cap)" using Suc.prems(2) [of j] by simp
  have ne: "(h + Suc j) mod cap \<noteq> h"
    using slot_ne_orig [of h cap "Suc j"] assms Suc.prems(1) by simp
  have "insertProbe cap tbl h ((h + j) mod cap) = insertProbe cap tbl h ((h + Suc j) mod cap)"
    using ne by (simp only: insertProbe_step [OF occ] next_slot if_False)
  also have "\<dots> = insertProbe cap tbl h ((h + (Suc j + n)) mod cap)"
    using Suc.prems by (intro Suc.IH) simp_all
  finally show ?case by simp
qed

lemma insertProbe_first_free:
  assumes "h < cap" "k0 < cap" "\<not> occupied tbl ((h + k0) mod cap)"
    and "\<And>k. k < k0 \<Longrightarrow> occupied tbl ((h + k) mod cap)"
  shows "insertProbe cap tbl h h = Some (Some ((h + k0) mod cap))"
proof -
  have "insertProbe cap tbl h ((h + 0) mod cap) = insertProbe cap tbl h ((h + (0 + k0)) mod cap)"
    using assms by (intro insertProbe_skip) simp_all
  then show ?thesis using assms(1,3) by (simp add: insertProbe_free)
qed

lemma insertProbe_full:
  assumes "h < cap" "\<And>k. k < cap \<Longrightarrow> occupied tbl ((h + k) mod cap)"
  shows "insertProbe cap tbl h h = Some None"
proof -
  have c: "0 < cap" using assms(1) by simp
  have "insertProbe cap tbl h ((h + 0) mod cap)
      = insertProbe cap tbl h ((h + (0 + (cap - 1))) mod cap)"
    using assms c by (intro insertProbe_skip) simp_all
  also have "\<dots> = Some None"
  proof -
    have "(h + Suc (0 + (cap - 1))) mod cap = h" using c assms(1) by simp
    moreover have "occupied tbl ((h + (0 + (cap - 1))) mod cap)"
      using assms(2) [of "cap - 1"] c by simp
    ultimately show ?thesis by (simp add: insertProbe_step next_slot del: add_Suc_right)
  qed
  finally show ?thesis using assms(1) by simp
qed

lemma findProbe_free:
  "\<not> occupied tbl i \<Longrightarrow> findProbe cap tbl d h i = Some nullptr"
  by (subst findProbe.simps) (simp add: occupied_def isZero_def)

lemma findProbe_hit:
  "d \<noteq> 0 \<Longrightarrow> hme_digest (tbl i) = d \<Longrightarrow> findProbe cap tbl d h i = Some (hme_transaction (tbl i))"
  by (subst findProbe.simps) (simp add: isZero_def)

lemma findProbe_step:
  "occupied tbl i \<Longrightarrow> hme_digest (tbl i) \<noteq> d \<Longrightarrow> findProbe cap tbl d h i =
     (if Suc i mod cap = h then Some nullptr else findProbe cap tbl d h (Suc i mod cap))"
  by (subst findProbe.simps) (simp add: occupied_def isZero_def Let_def)

lemma findProbe_skip:
  assumes "h < cap"
  shows "j + n < cap \<Longrightarrow>
    (\<And>k. j \<le> k \<Longrightarrow> k < j + n \<Longrightarrow>
       occupied tbl ((h + k) mod cap) \<and> hme_digest (tbl ((h + k) mod cap)) \<noteq> d) \<Longrightarrow>
    findProbe cap tbl d h ((h + j) mod cap) = findProbe cap tbl d h ((h + (j + n)) mod cap)"
proof (induction n arbitrary: j)
  case 0
  show ?case by simp
next
  case (Suc n)
  have occ: "occupied tbl ((h + j) mod cap)" "hme_digest (tbl ((h + j) mod cap)) \<noteq> d"
    using Suc.prems(2) [of j] by simp_all
  have ne: "(h + Suc j) mod cap \<noteq> h"
    using slot_ne_orig [of h cap "Suc j"] assms Suc.prems(1) by simp
  have "findProbe cap tbl d h ((h + j) mod cap) = findProbe cap tbl d h ((h + Suc j) mod cap)"
    using ne by (simp only: findProbe_step [OF occ] next_slot if_False)
  also have "\<dots> = findProbe cap tbl d h ((h + (Suc j + n)) mod cap)"
    using Suc.prems by (intro Suc.IH) simp_all
  finally show ?case by simp
qed

lemma findProbe_found:
  assumes "h < cap" "k0 < cap" "d \<noteq> 0" "hme_digest (tbl ((h + k0) mod cap)) = d"
    and "\<And>k. k < k0 \<Longrightarrow> occupied tbl ((h + k) mod cap) \<and> hme_digest (tbl ((h + k) mod cap)) \<noteq> d"
  shows "findProbe cap tbl d h h = Some (hme_transaction (tbl ((h + k0) mod cap)))"
proof -
  have "findProbe cap tbl d h ((h + 0) mod cap) = findProbe cap tbl d h ((h + (0 + k0)) mod cap)"
    using assms by (intro findProbe_skip) simp_all
  then show ?thesis using assms(1,3,4) by (simp add: findProbe_hit)
qed

lemma findProbe_absent:
  assumes "h < cap" "\<And>i. i < cap \<Longrightarrow> hme_digest (tbl i) \<noteq> d"
  shows "findProbe cap tbl d h h = Some nullptr"
proof (cases "\<exists>k<cap. \<not> occupied tbl ((h + k) mod cap)")
  case True
  define k0 where "k0 = (LEAST k. k < cap \<and> \<not> occupied tbl ((h + k) mod cap))"
  from True have k0: "k0 < cap \<and> \<not> occupied tbl ((h + k0) mod cap)"
    unfolding k0_def by (rule LeastI_ex)
  have less: "\<And>k. k < k0 \<Longrightarrow> occupied tbl ((h + k) mod cap)"
  proof -
    fix k assume "k < k0"
    then have "\<not> (k < cap \<and> \<not> occupied tbl ((h + k) mod cap))"
      unfolding k0_def by (rule not_less_Least)
    with \<open>k < k0\<close> k0 show "occupied tbl ((h + k) mod cap)" by simp
  qed
  have "findProbe cap tbl d h ((h + 0) mod cap) = findProbe cap tbl d h ((h + (0 + k0)) mod cap)"
    using assms k0 less by (intro findProbe_skip) simp_all
  then show ?thesis using assms(1) k0 by (simp add: findProbe_free)
next
  case False
  have c: "0 < cap" using assms(1) by simp
  from False have occ: "\<And>k. k < cap \<Longrightarrow> occupied tbl ((h + k) mod cap)" by blast
  have "findProbe cap tbl d h ((h + 0) mod cap)
      = findProbe cap tbl d h ((h + (0 + (cap - 1))) mod cap)"
    using assms c occ by (intro findProbe_skip) simp_all
  also have "\<dots> = Some nullptr"
  proof -
    have "(h + Suc (0 + (cap - 1))) mod cap = h" using c assms(1) by simp
    moreover have "occupied tbl ((h + (0 + (cap - 1))) mod cap)"
      using occ [of "cap - 1"] c by simp
    moreover have "hme_digest (tbl ((h + (0 + (cap - 1))) mod cap)) \<noteq> d"
      using assms(2) [of "(h + (0 + (cap - 1))) mod cap"] c by simp
    ultimately show ?thesis by (simp add: findProbe_step next_slot del: add_Suc_right)
  qed
  finally show ?thesis using assms(1) by simp
qed


subsection \<open>Digest index: the table invariant\<close>

lemma hashFunc_less: "0 < maxNumberTxsCurrentEpoch cfg \<Longrightarrow> hashFunc cfg d < maxNumberTxsCurrentEpoch cfg"
  by (simp add: hashFunc_def)

lemma table_inv_empty: "table_inv cfg emptyTable []"
  by (simp add: table_inv_def emptyTable_def occupied_def)

lemma find_stored:
  assumes inv: "table_inv cfg tbl S" and cap: "0 < maxNumberTxsCurrentEpoch cfg"
    and mem: "(d, p) \<in> set S"
  shows "findTransaction cfg tbl d = Some p"
proof -
  have nz: "\<forall>(d, p)\<in>set S. d \<noteq> 0" using inv unfolding table_inv_def Let_def by blast
  let ?cap = "maxNumberTxsCurrentEpoch cfg"
  let ?h = "hashFunc cfg d"
  have d0: "d \<noteq> 0" using nz mem by auto
  from inv mem obtain k where k: "k < ?cap"
      "tbl ((?h + k) mod ?cap) = \<lparr> hme_digest = d, hme_transaction = p \<rparr>"
      "\<forall>k'<k. occupied tbl ((?h + k') mod ?cap)"
    unfolding table_inv_def Let_def by fast
  have uniq: "\<And>i j. i < ?cap \<Longrightarrow> j < ?cap \<Longrightarrow> occupied tbl i \<Longrightarrow>
      hme_digest (tbl i) = hme_digest (tbl j) \<Longrightarrow> i = j"
    using inv unfolding table_inv_def Let_def by blast
  have before: "\<And>k'. k' < k \<Longrightarrow> occupied tbl ((?h + k') mod ?cap)
      \<and> hme_digest (tbl ((?h + k') mod ?cap)) \<noteq> d"
  proof -
    fix k' assume k': "k' < k"
    then have occ: "occupied tbl ((?h + k') mod ?cap)" using k(3) by simp
    have "hme_digest (tbl ((?h + k') mod ?cap)) \<noteq> d"
    proof
      assume "hme_digest (tbl ((?h + k') mod ?cap)) = d"
      then have "hme_digest (tbl ((?h + k') mod ?cap)) = hme_digest (tbl ((?h + k) mod ?cap))"
        using k(2) by simp
      then have "(?h + k') mod ?cap = (?h + k) mod ?cap"
        using uniq [of "(?h + k') mod ?cap" "(?h + k) mod ?cap"] occ cap by simp
      then have "k' = k"
        using slot_inj [of ?h ?cap k' k] hashFunc_less [OF cap] k(1) k' by simp
      then show False using k' by simp
    qed
    with occ show "occupied tbl ((?h + k') mod ?cap)
      \<and> hme_digest (tbl ((?h + k') mod ?cap)) \<noteq> d" by simp
  qed
  have "findProbe ?cap tbl d ?h ?h = Some (hme_transaction (tbl ((?h + k) mod ?cap)))"
    using hashFunc_less [OF cap] k(1) d0 k(2) before
    by (intro findProbe_found) simp_all
  then show ?thesis using d0 k(2) by (simp add: findTransaction_def isZero_def)
qed

lemma find_absent:
  assumes inv: "table_inv cfg tbl S" and cap: "0 < maxNumberTxsCurrentEpoch cfg"
    and mem: "d \<notin> fst ` set S"
  shows "findTransaction cfg tbl d = Some nullptr"
proof (cases "d = 0")
  case True
  then show ?thesis by (simp add: findTransaction_def isZero_def)
next
  case False
  let ?cap = "maxNumberTxsCurrentEpoch cfg"
  have "\<And>i. i < ?cap \<Longrightarrow> hme_digest (tbl i) \<noteq> d"
  proof
    fix i assume i: "i < ?cap" and e: "hme_digest (tbl i) = d"
    then have "occupied tbl i" using False by (simp add: occupied_def)
    then have "(hme_digest (tbl i), hme_transaction (tbl i)) \<in> set S"
      using inv i unfolding table_inv_def Let_def by blast
    then show False using mem e by force
  qed
  then have "findProbe ?cap tbl d (hashFunc cfg d) (hashFunc cfg d) = Some nullptr"
    using hashFunc_less [OF cap] by (intro findProbe_absent) simp_all
  then show ?thesis using False by (simp add: findTransaction_def isZero_def)
qed

lemma full_table:
  assumes inv: "table_inv cfg tbl S" and len: "length S = maxNumberTxsCurrentEpoch cfg"
    and i: "i < maxNumberTxsCurrentEpoch cfg"
  shows "occupied tbl i"
proof -
  let ?cap = "maxNumberTxsCurrentEpoch cfg"
  have "card {i. i < ?cap \<and> occupied tbl i} = ?cap"
    using inv len unfolding table_inv_def Let_def by simp
  moreover have "{i. i < ?cap \<and> occupied tbl i} \<subseteq> {..<?cap}" by auto
  ultimately have "{i. i < ?cap \<and> occupied tbl i} = {..<?cap}"
    by (intro card_subset_eq) simp_all
  then show ?thesis using i by auto
qed

lemma insert_dropped:
  assumes inv: "table_inv cfg tbl S" and len: "length S = maxNumberTxsCurrentEpoch cfg"
    and cap: "0 < maxNumberTxsCurrentEpoch cfg"
  shows "insertTransaction cfg tbl d p = Some tbl"
proof (cases "d = 0")
  case True
  then show ?thesis by (simp add: insertTransaction_def isZero_def)
next
  case False
  let ?cap = "maxNumberTxsCurrentEpoch cfg"
  have "insertProbe ?cap tbl (hashFunc cfg d) (hashFunc cfg d) = Some None"
    using hashFunc_less [OF cap] full_table [OF inv len]
    by (intro insertProbe_full) simp_all
  then show ?thesis using False by (simp add: insertTransaction_def isZero_def)
qed


lemma insert_stored:
  assumes inv: "table_inv cfg tbl S" and len: "length S < maxNumberTxsCurrentEpoch cfg"
    and d0: "d \<noteq> 0" and new: "d \<notin> fst ` set S"
  shows "\<exists>tbl'. insertTransaction cfg tbl d p = Some tbl' \<and> table_inv cfg tbl' (S @ [(d, p)])"
proof -
  let ?cap = "maxNumberTxsCurrentEpoch cfg"
  let ?h = "hashFunc cfg d"
  have cap: "0 < ?cap" using len by simp
  note h = hashFunc_less [OF cap, of d]
  have I1: "\<And>i. i < ?cap \<Longrightarrow> occupied tbl i \<Longrightarrow>
      (hme_digest (tbl i), hme_transaction (tbl i)) \<in> set S"
    and I2: "\<And>d' p'. (d', p') \<in> set S \<Longrightarrow> \<exists>k<?cap.
            tbl ((hashFunc cfg d' + k) mod ?cap) = \<lparr> hme_digest = d', hme_transaction = p' \<rparr>
            \<and> (\<forall>k'<k. occupied tbl ((hashFunc cfg d' + k') mod ?cap))"
    and I4: "\<And>i j. i < ?cap \<Longrightarrow> j < ?cap \<Longrightarrow> occupied tbl i \<Longrightarrow>
      hme_digest (tbl i) = hme_digest (tbl j) \<Longrightarrow> i = j"
    and I3: "card {i. i < ?cap \<and> occupied tbl i} = length S"
    and I5: "distinct (map fst S)" "\<And>d' p'. (d', p') \<in> set S \<Longrightarrow> d' \<noteq> 0"
    using inv unfolding table_inv_def Let_def by blast+
  have absent: "\<And>i. i < ?cap \<Longrightarrow> hme_digest (tbl i) \<noteq> d"
  proof
    fix i assume i: "i < ?cap" and e: "hme_digest (tbl i) = d"
    then have "occupied tbl i" using d0 by (simp add: occupied_def)
    from I1 [OF i this] show False using new e by force
  qed
  have "\<exists>i<?cap. \<not> occupied tbl i"
  proof (rule ccontr)
    assume "\<not> (\<exists>i<?cap. \<not> occupied tbl i)"
    then have "{i. i < ?cap \<and> occupied tbl i} = {..<?cap}" by auto
    then show False using I3 len by simp
  qed
  then obtain i where i: "i < ?cap" "\<not> occupied tbl i" by blast
  from slot_surj [OF h i(1)] i(2) have ex: "\<exists>k. k < ?cap \<and> \<not> occupied tbl ((?h + k) mod ?cap)"
    by blast
  define k0 where "k0 = (LEAST k. k < ?cap \<and> \<not> occupied tbl ((?h + k) mod ?cap))"
  from ex have k0: "k0 < ?cap \<and> \<not> occupied tbl ((?h + k0) mod ?cap)"
    unfolding k0_def by (rule LeastI_ex)
  have less: "\<And>k. k < k0 \<Longrightarrow> occupied tbl ((?h + k) mod ?cap)"
  proof -
    fix k assume "k < k0"
    then have "\<not> (k < ?cap \<and> \<not> occupied tbl ((?h + k) mod ?cap))"
      unfolding k0_def by (rule not_less_Least)
    with \<open>k < k0\<close> k0 show "occupied tbl ((?h + k) mod ?cap)" by simp
  qed
  let ?i0 = "(?h + k0) mod ?cap"
  let ?tbl = "tbl(?i0 := \<lparr> hme_digest = d, hme_transaction = p \<rparr>)"
  have i0: "?i0 < ?cap" using cap by simp
  have probe: "insertProbe ?cap tbl ?h ?h = Some (Some ?i0)"
    using h k0 less by (intro insertProbe_first_free) simp_all
  then have ins: "insertTransaction cfg tbl d p = Some ?tbl"
    using d0 by (simp add: insertTransaction_def isZero_def)
  have occ': "\<And>j. occupied ?tbl j = (j = ?i0 \<or> occupied tbl j)"
    using d0 by (simp add: occupied_def)
  have "table_inv cfg ?tbl (S @ [(d, p)])"
    unfolding table_inv_def Let_def
  proof (intro conjI allI impI ballI)
    fix j assume "j < ?cap" "occupied ?tbl j"
    then show "(hme_digest (?tbl j), hme_transaction (?tbl j)) \<in> set (S @ [(d, p)])"
      using I1 [of j] by (auto simp: occupied_def)
  next
    fix x assume x: "x \<in> set (S @ [(d, p)])"
    show "case x of (d', p') \<Rightarrow> \<exists>k<?cap.
            ?tbl ((hashFunc cfg d' + k) mod ?cap) = \<lparr> hme_digest = d', hme_transaction = p' \<rparr>
            \<and> (\<forall>k'<k. occupied ?tbl ((hashFunc cfg d' + k') mod ?cap))"
    proof (cases "x \<in> set S")
      case True
      obtain d' p' where xp: "x = (d', p')" by (cases x)
      from I2 [of d' p'] True xp obtain k where k: "k < ?cap"
        "tbl ((hashFunc cfg d' + k) mod ?cap) = \<lparr> hme_digest = d', hme_transaction = p' \<rparr>"
        "\<forall>k'<k. occupied tbl ((hashFunc cfg d' + k') mod ?cap)" by blast
      have "d' \<noteq> 0" using I5(2) True xp by blast
      then have "occupied tbl ((hashFunc cfg d' + k) mod ?cap)" using k(2) by (simp add: occupied_def)
      then have "(hashFunc cfg d' + k) mod ?cap \<noteq> ?i0" using k0 by auto
      then have "?tbl ((hashFunc cfg d' + k) mod ?cap) = \<lparr> hme_digest = d', hme_transaction = p' \<rparr>"
        using k(2) by simp
      moreover have "\<forall>k'<k. occupied ?tbl ((hashFunc cfg d' + k') mod ?cap)"
        using k(3) occ' by blast
      ultimately show ?thesis using k(1) xp by blast
    next
      case False
      with x have xp: "x = (d, p)" by simp
      have "?tbl ?i0 = \<lparr> hme_digest = d, hme_transaction = p \<rparr>" by simp
      moreover have "\<forall>k'<k0. occupied ?tbl ((?h + k') mod ?cap)" using less occ' by blast
      ultimately show ?thesis using k0 xp by blast
    qed
  next
    fix a b assume ab: "a < ?cap" "b < ?cap" "occupied ?tbl a" "hme_digest (?tbl a) = hme_digest (?tbl b)"
    show "a = b"
    proof (cases "a = ?i0")
      case True
      then have "b = ?i0 \<or> hme_digest (tbl b) = d" using ab(4) by (auto split: if_splits)
      then show ?thesis using absent [OF ab(2)] True by auto
    next
      case False
      then have oa: "occupied tbl a" using ab(3) occ' by simp
      have "b \<noteq> ?i0"
      proof
        assume "b = ?i0"
        then have "hme_digest (tbl a) = d" using ab(4) False by simp
        then show False using absent [OF ab(1)] by simp
      qed
      then show ?thesis using I4 [OF ab(1,2) oa] ab(4) False by simp
    qed
  next
    have "{j. j < ?cap \<and> occupied ?tbl j} = insert ?i0 {j. j < ?cap \<and> occupied tbl j}"
      using i0 occ' by auto
    moreover have "?i0 \<notin> {j. j < ?cap \<and> occupied tbl j}" using k0 by simp
    moreover have "finite {j. j < ?cap \<and> occupied tbl j}" by simp
    ultimately show "card {j. j < ?cap \<and> occupied ?tbl j} = length (S @ [(d, p)])"
      using I3 by simp
  next
    show "distinct (map fst (S @ [(d, p)]))" using I5(1) new by simp
  next
    fix x assume "x \<in> set (S @ [(d, p)])"
    then show "case x of (d', p') \<Rightarrow> d' \<noteq> 0" using I5(2) d0 by auto
  qed
  with ins show ?thesis by blast
qed

lemma insertAll_inv:
  assumes cap: "0 < maxNumberTxsCurrentEpoch cfg"
  shows "table_inv cfg tbl S \<Longrightarrow> length S \<le> maxNumberTxsCurrentEpoch cfg \<Longrightarrow>
    distinct (map fst (S @ kvs)) \<Longrightarrow> \<forall>(d, p)\<in>set kvs. d \<noteq> 0 \<Longrightarrow>
    \<exists>tbl'. insertAll cfg tbl kvs = Some tbl'
       \<and> table_inv cfg tbl' (take (maxNumberTxsCurrentEpoch cfg) (S @ kvs))"
proof (induction kvs arbitrary: tbl S)
  case Nil
  then show ?case by simp
next
  case (Cons kv kvs)
  obtain d p where kv: "kv = (d, p)" by (cases kv)
  let ?cap = "maxNumberTxsCurrentEpoch cfg"
  show ?case
  proof (cases "length S < ?cap")
    case True
    have d0: "d \<noteq> 0" and new: "d \<notin> fst ` set S" using Cons.prems(3,4) kv by auto
    from insert_stored [OF Cons.prems(1) True d0 new, of p] obtain tbl1 where
      t1: "insertTransaction cfg tbl d p = Some tbl1" "table_inv cfg tbl1 (S @ [(d, p)])"
      by blast
    have "\<exists>tbl'. insertAll cfg tbl1 kvs = Some tbl'
       \<and> table_inv cfg tbl' (take ?cap ((S @ [(d, p)]) @ kvs))"
      using Cons.prems True kv by (intro Cons.IH [OF t1(2)]) simp_all
    then show ?thesis using t1(1) kv by simp
  next
    case False
    then have len: "length S = ?cap" using Cons.prems(2) by simp
    have t1: "insertTransaction cfg tbl d p = Some tbl"
      by (rule insert_dropped [OF Cons.prems(1) len cap])
    have "\<exists>tbl'. insertAll cfg tbl kvs = Some tbl'
       \<and> table_inv cfg tbl' (take ?cap (S @ kvs))"
      using Cons.prems kv by (intro Cons.IH [OF Cons.prems(1)]) simp_all
    then show ?thesis using t1 kv len by simp
  qed
qed

text \<open>
  C6. For a digest index with at least one slot: inserting the zero digest leaves the
  table as it is; an insertion into a table whose slots are all occupied (the probe comes
  back to its starting slot) leaves the table as it is; and after any sequence of
  insertions of distinct non-zero digests into the empty table, the first
  \<open>maxNumberTxsCurrentEpoch\<close> of them, the ones that found a slot, also when they fill the
  table to exactly its capacity, are found with the pointer they were inserted with,
  and every other digest (never inserted, dropped, or zero) is answered with \<^verbatim>\<open>NULL\<close>. Every
  call returns.
\<close>

theorem digest_index_correct:
  assumes cap: "0 < maxNumberTxsCurrentEpoch cfg"
    and dist: "distinct (map fst kvs)" and nz: "\<forall>(d, p)\<in>set kvs. d \<noteq> 0"
  shows "insertTransaction cfg tbl 0 p = Some tbl
    \<and> ((\<forall>i<maxNumberTxsCurrentEpoch cfg. hme_digest (tbl i) \<noteq> 0) \<longrightarrow>
          insertTransaction cfg tbl d p = Some tbl)
    \<and> (\<exists>tbl'. insertAll cfg emptyTable kvs = Some tbl'
          \<and> (\<forall>i<length kvs. i < maxNumberTxsCurrentEpoch cfg \<longrightarrow>
                findTransaction cfg tbl' (fst (kvs ! i)) = Some (snd (kvs ! i)))
          \<and> (\<forall>d'. d' \<notin> fst ` set (take (maxNumberTxsCurrentEpoch cfg) kvs) \<longrightarrow>
                findTransaction cfg tbl' d' = Some nullptr))"
proof (intro conjI impI)
  show "insertTransaction cfg tbl 0 p = Some tbl"
    by (simp add: insertTransaction_def isZero_def)
next
  let ?cap = "maxNumberTxsCurrentEpoch cfg"
  assume full: "\<forall>i<?cap. hme_digest (tbl i) \<noteq> 0"
  show "insertTransaction cfg tbl d p = Some tbl"
  proof (cases "d = 0")
    case True
    then show ?thesis by (simp add: insertTransaction_def isZero_def)
  next
    case False
    have "insertProbe ?cap tbl (hashFunc cfg d) (hashFunc cfg d) = Some None"
      using hashFunc_less [OF cap] full
      by (intro insertProbe_full) (simp_all add: occupied_def)
    then show ?thesis using False by (simp add: insertTransaction_def isZero_def)
  qed
next
  let ?cap = "maxNumberTxsCurrentEpoch cfg"
  from insertAll_inv [OF cap table_inv_empty, of kvs] dist nz obtain tbl' where
    t: "insertAll cfg emptyTable kvs = Some tbl'" "table_inv cfg tbl' (take ?cap kvs)"
    by auto
  have "\<forall>i<length kvs. i < ?cap \<longrightarrow> findTransaction cfg tbl' (fst (kvs ! i)) = Some (snd (kvs ! i))"
  proof (intro allI impI)
    fix i assume i: "i < length kvs" "i < ?cap"
    then have "kvs ! i \<in> set (take ?cap kvs)"
      by (metis in_set_conv_nth length_take min_less_iff_conj nth_take)
    then have "(fst (kvs ! i), snd (kvs ! i)) \<in> set (take ?cap kvs)" by simp
    from find_stored [OF t(2) cap this]
    show "findTransaction cfg tbl' (fst (kvs ! i)) = Some (snd (kvs ! i))" .
  qed
  moreover have "\<forall>d'. d' \<notin> fst ` set (take ?cap kvs) \<longrightarrow> findTransaction cfg tbl' d' = Some nullptr"
    using find_absent [OF t(2) cap] by blast
  ultimately show "\<exists>tbl'. insertAll cfg emptyTable kvs = Some tbl'
          \<and> (\<forall>i<length kvs. i < ?cap \<longrightarrow>
                findTransaction cfg tbl' (fst (kvs ! i)) = Some (snd (kvs ! i)))
          \<and> (\<forall>d'. d' \<notin> fst ` set (take ?cap kvs) \<longrightarrow>
                findTransaction cfg tbl' d' = Some nullptr)"
    using t(1) by blast
qed

theorem digest_index_correct_witness:
  "0 < maxNumberTxsCurrentEpoch cfg_tiny
   \<and> distinct (map fst kvs3) \<and> 0 \<notin> fst ` set kvs3
   \<and> (\<exists>tbl'. insertAll cfg_tiny emptyTable kvs3 = Some tbl'
          \<and> findTransaction cfg_tiny tbl' 1 = Some (Ptr 100)
          \<and> findTransaction cfg_tiny tbl' 2 = Some (Ptr 200)
          \<and> findTransaction cfg_tiny tbl' 3 = Some nullptr
          \<and> findTransaction cfg_tiny tbl' 0 = Some nullptr)"
proof -
  have c: "maxNumberTxsCurrentEpoch cfg_tiny = 2"
    by (simp add: maxNumberTxsCurrentEpoch_def cfg_tiny_def)
  have h: "0 < maxNumberTxsCurrentEpoch cfg_tiny" "distinct (map fst kvs3)"
    "\<forall>(d, p)\<in>set kvs3. d \<noteq> 0"
    by (simp_all add: c kvs3_def)
  from digest_index_correct [OF h, of emptyTable nullptr 0] obtain tbl' where
    t: "insertAll cfg_tiny emptyTable kvs3 = Some tbl'"
      "\<forall>i<length kvs3. i < maxNumberTxsCurrentEpoch cfg_tiny \<longrightarrow>
          findTransaction cfg_tiny tbl' (fst (kvs3 ! i)) = Some (snd (kvs3 ! i))"
      "\<forall>d'. d' \<notin> fst ` set (take (maxNumberTxsCurrentEpoch cfg_tiny) kvs3) \<longrightarrow>
          findTransaction cfg_tiny tbl' d' = Some nullptr"
    by blast
  have "findTransaction cfg_tiny tbl' 1 = Some (Ptr 100)"
    using t(2) [rule_format, of 0] by (simp add: c kvs3_def)
  moreover have "findTransaction cfg_tiny tbl' 2 = Some (Ptr 200)"
    using t(2) [rule_format, of 1] by (simp add: c kvs3_def)
  moreover have "findTransaction cfg_tiny tbl' 3 = Some nullptr"
    using t(3) [rule_format, of 3] by (simp add: c kvs3_def)
  moreover have "findTransaction cfg_tiny tbl' 0 = Some nullptr"
    using t(3) [rule_format, of 0] by (simp add: c kvs3_def)
  moreover have "0 \<notin> fst ` set kvs3" by (simp add: kvs3_def)
  ultimately show ?thesis using h t(1) by blast
qed

subsection \<open>TickTransactionsStorage: epoch rollover\<close>
















subsection \<open>TxsPool: epoch rollover\<close>

























end
